theory Spec2Isabelle
  imports Main "HOL-Library.Word" "HOL-Library.Sublist"
begin

unbundle bit_operations_syntax

section \<open>Data model of Debounce16\<close>

text \<open>
  The class \<^verbatim>\<open>Debounce16\<close> (Debounce16.h) becomes a record with one field per
  data member, under the member's own name.  The target is the ESP32, where
  \<^verbatim>\<open>unsigned long\<close> has 32 bits, so the two timestamps are 32-bit words and the
  elapsed times are computed with wrap-around, as in the C++.

  A callback slot holds \<open>None\<close> for \<^verbatim>\<open>nullptr\<close> and \<open>Some f\<close> for a registered
  handler \<open>f\<close>; handlers are identified by a number.  A handler is opaque: calling
  it is recorded by appending its identity to \<open>invoked\<close>, the trace of handler
  calls made so far.  \<open>invoked\<close> is the only field that is not a member of the
  C++ class.  Handlers are assumed not to call back into the object.
\<close>

datatype ButtonState =
    STATE_IDLE
  | STATE_PRESS_FIRST
  | STATE_RELEASE_FIRST
  | STATE_WAIT_DOUBLE_PRESS
  | STATE_WAIT_LONG_PRESS
  | STATE_LONG_PRESS_ACTIVE

type_synonym handler = nat

record Debounce16 =
  historyButton :: "16 word"
  pinButton :: "8 word"
  levelActive :: bool
  stateButton :: ButtonState
  timeEvent :: "32 word"
  timePress :: "32 word"
  flagEnableDoublePress :: bool
  flagEnableLongPress :: bool
  windowDoublePress :: "16 word"
  thresholdLongPress :: "16 word"
  countClick :: "8 word"
  flagDoublePressed :: bool
  flagLongPressed :: bool
  flagPressProcessed :: bool
  flagReleaseProcessed :: bool
  callbackPress :: "handler option"
  callbackRelease :: "handler option"
  callbackDoublePress :: "handler option"
  callbackLongPressStart :: "handler option"
  callbackLongPressEnd :: "handler option"
  invoked :: "handler list"

subsection \<open>Bit pattern constants\<close>

definition MASK_PRESS :: "16 word" where
  "MASK_PRESS = 0x003F"

definition PATTERN_PRESS :: "16 word" where
  "PATTERN_PRESS = 0x003F"

definition MASK_RELEASE :: "16 word" where
  "MASK_RELEASE = 0xFC00"

definition PATTERN_RELEASE :: "16 word" where
  "PATTERN_RELEASE = 0xFC00"

definition PATTERN_DOWN :: "16 word" where
  "PATTERN_DOWN = 0xFFFF"

definition PATTERN_UP :: "16 word" where
  "PATTERN_UP = 0x0000"

section \<open>Operations\<close>

text \<open>
  The constructor.  The call of \<^verbatim>\<open>pinMode\<close> configures the GPIO hardware and
  leaves the object alone; it is not part of the model.
\<close>

definition Debounce16_ctor :: "8 word \<Rightarrow> bool \<Rightarrow> Debounce16" where
  "Debounce16_ctor pin activeLevel =
     \<lparr> historyButton = PATTERN_UP,
       pinButton = pin,
       levelActive = activeLevel,
       stateButton = STATE_IDLE,
       timeEvent = 0,
       timePress = 0,
       flagEnableDoublePress = False,
       flagEnableLongPress = False,
       windowDoublePress = 300,
       thresholdLongPress = 1000,
       countClick = 0,
       flagDoublePressed = False,
       flagLongPressed = False,
       flagPressProcessed = False,
       flagReleaseProcessed = False,
       callbackPress = None,
       callbackRelease = None,
       callbackDoublePress = None,
       callbackLongPressStart = None,
       callbackLongPressEnd = None,
       invoked = [] \<rparr>"

definition triggerCallback :: "handler option \<Rightarrow> Debounce16 \<Rightarrow> Debounce16" where
  "triggerCallback callback s =
     (case callback of
        None \<Rightarrow> s
      | Some f \<Rightarrow> s\<lparr>invoked := invoked s @ [f]\<rparr>)"

text \<open>
  \<^verbatim>\<open>readButtonRaw\<close>: the level returned by \<^verbatim>\<open>digitalRead\<close> is the parameter
  \<open>pinLevel\<close> (\<open>True\<close> for \<^verbatim>\<open>HIGH\<close>).
\<close>

definition readButtonRaw :: "bool \<Rightarrow> Debounce16 \<Rightarrow> bool" where
  "readButtonRaw pinLevel s = (if levelActive s then pinLevel else \<not> pinLevel)"

definition isPressed :: "Debounce16 \<Rightarrow> bool \<times> Debounce16" where
  "isPressed s =
     (if historyButton s AND MASK_PRESS = PATTERN_PRESS \<and> \<not> flagPressProcessed s
      then (True, triggerCallback (callbackPress s) (s\<lparr>flagPressProcessed := True\<rparr>))
      else if historyButton s AND MASK_PRESS \<noteq> PATTERN_PRESS
      then (False, s\<lparr>flagPressProcessed := False\<rparr>)
      else (False, s))"

definition isReleased :: "Debounce16 \<Rightarrow> bool \<times> Debounce16" where
  "isReleased s =
     (if historyButton s AND MASK_RELEASE = PATTERN_RELEASE \<and> \<not> flagReleaseProcessed s
      then (True, triggerCallback (callbackRelease s) (s\<lparr>flagReleaseProcessed := True\<rparr>))
      else if historyButton s AND MASK_RELEASE \<noteq> PATTERN_RELEASE
      then (False, s\<lparr>flagReleaseProcessed := False\<rparr>)
      else (False, s))"

definition isDown :: "Debounce16 \<Rightarrow> bool" where
  "isDown s = (historyButton s = PATTERN_DOWN)"

definition isUp :: "Debounce16 \<Rightarrow> bool" where
  "isUp s = (historyButton s = PATTERN_UP)"

definition enableDoublePressDetection :: "bool \<Rightarrow> Debounce16 \<Rightarrow> Debounce16" where
  "enableDoublePressDetection enable s =
     (let s1 = s\<lparr>flagEnableDoublePress := enable\<rparr>
      in if \<not> enable then s1\<lparr>countClick := 0, flagDoublePressed := False\<rparr> else s1)"

definition setDoublePressWindow :: "16 word \<Rightarrow> Debounce16 \<Rightarrow> Debounce16" where
  "setDoublePressWindow windowMs s = s\<lparr>windowDoublePress := windowMs\<rparr>"

definition enableLongPressDetection :: "bool \<Rightarrow> Debounce16 \<Rightarrow> Debounce16" where
  "enableLongPressDetection enable s =
     (let s1 = s\<lparr>flagEnableLongPress := enable\<rparr>
      in if \<not> enable then s1\<lparr>flagLongPressed := False\<rparr> else s1)"

definition setLongPressThreshold :: "16 word \<Rightarrow> Debounce16 \<Rightarrow> Debounce16" where
  "setLongPressThreshold thresholdMs s = s\<lparr>thresholdLongPress := thresholdMs\<rparr>"

definition isDoublePressed :: "Debounce16 \<Rightarrow> bool \<times> Debounce16" where
  "isDoublePressed s =
     (let result = flagDoublePressed s
      in if result then (result, s\<lparr>flagDoublePressed := False\<rparr>) else (result, s))"

definition isLongPressed :: "Debounce16 \<Rightarrow> bool" where
  "isLongPressed s = flagLongPressed s"

definition getClickCount :: "Debounce16 \<Rightarrow> 8 word \<times> Debounce16" where
  "getClickCount s =
     (let result = countClick s
      in if 0 < countClick s \<and> stateButton s = STATE_IDLE
         then (result, s\<lparr>countClick := 0\<rparr>)
         else (result, s))"

definition onPress :: "handler option \<Rightarrow> Debounce16 \<Rightarrow> Debounce16" where
  "onPress callback s = s\<lparr>callbackPress := callback\<rparr>"

definition onRelease :: "handler option \<Rightarrow> Debounce16 \<Rightarrow> Debounce16" where
  "onRelease callback s = s\<lparr>callbackRelease := callback\<rparr>"

definition onDoublePress :: "handler option \<Rightarrow> Debounce16 \<Rightarrow> Debounce16" where
  "onDoublePress callback s = s\<lparr>callbackDoublePress := callback\<rparr>"

definition onLongPressStart :: "handler option \<Rightarrow> Debounce16 \<Rightarrow> Debounce16" where
  "onLongPressStart callback s = s\<lparr>callbackLongPressStart := callback\<rparr>"

definition onLongPressEnd :: "handler option \<Rightarrow> Debounce16 \<Rightarrow> Debounce16" where
  "onLongPressEnd callback s = s\<lparr>callbackLongPressEnd := callback\<rparr>"

definition resetState :: "Debounce16 \<Rightarrow> Debounce16" where
  "resetState s =
     s\<lparr>stateButton := STATE_IDLE,
       countClick := 0,
       flagDoublePressed := False,
       flagLongPressed := False\<rparr>"

text \<open>
  \<^verbatim>\<open>updateStateMachine\<close>, with the value of \<^verbatim>\<open>millis()\<close> as the parameter
  \<open>currentTime\<close>.  The 16-bit window and threshold are widened to 32 bits for
  the comparisons with the elapsed time, as the usual arithmetic conversions do.
  In \<open>STATE_RELEASE_FIRST\<close> the call of \<^verbatim>\<open>isPressed\<close> is the left operand of
  \<^verbatim>\<open>&&\<close> and so is made on every tick.
\<close>

definition updateStateMachine :: "32 word \<Rightarrow> Debounce16 \<Rightarrow> Debounce16" where
  "updateStateMachine currentTime s =
     (case stateButton s of
        STATE_IDLE \<Rightarrow>
          (let (pressed, s1) = isPressed s
           in if pressed
              then s1\<lparr>timePress := currentTime, countClick := 1,
                      stateButton := STATE_PRESS_FIRST\<rparr>
              else s1)
      | STATE_PRESS_FIRST \<Rightarrow>
          (let s1 =
                 (if flagEnableLongPress s
                  then (let timeElapsed = currentTime - timePress s
                        in if ucast (thresholdLongPress s) \<le> timeElapsed \<and> \<not> flagLongPressed s
                           then triggerCallback (callbackLongPressStart s)
                                  (s\<lparr>flagLongPressed := True,
                                     stateButton := STATE_LONG_PRESS_ACTIVE\<rparr>)
                           else s)
                  else s);
               (released, s2) = isReleased s1
           in if released
              then (let s3 = s2\<lparr>timeEvent := currentTime\<rparr>
                    in if flagLongPressed s3 then resetState s3
                       else if flagEnableDoublePress s3
                       then s3\<lparr>stateButton := STATE_RELEASE_FIRST\<rparr>
                       else resetState s3)
              else s2)
      | STATE_RELEASE_FIRST \<Rightarrow>
          (let timeElapsed = currentTime - timeEvent s;
               (pressed, s1) = isPressed s
           in if pressed \<and> timeElapsed < ucast (windowDoublePress s1)
              then s1\<lparr>countClick := 2, timePress := currentTime,
                      stateButton := STATE_PRESS_FIRST\<rparr>
              else if ucast (windowDoublePress s1) \<le> timeElapsed
              then (let s2 =
                          (if countClick s1 = 2
                           then triggerCallback (callbackDoublePress s1)
                                  (s1\<lparr>flagDoublePressed := True\<rparr>)
                           else s1)
                    in resetState s2)
              else s1)
      | STATE_LONG_PRESS_ACTIVE \<Rightarrow>
          (let (released, s1) = isReleased s
           in if released
              then resetState (triggerCallback (callbackLongPressEnd s1)
                                 (s1\<lparr>flagLongPressed := False\<rparr>))
              else s1)
      | STATE_WAIT_DOUBLE_PRESS \<Rightarrow> s
      | STATE_WAIT_LONG_PRESS \<Rightarrow> s)"

text \<open>
  \<^verbatim>\<open>update\<close>: one tick.  \<open>pinLevel\<close> is what \<^verbatim>\<open>digitalRead\<close> returns during the
  tick and \<open>currentTime\<close> what \<^verbatim>\<open>millis()\<close> returns.  The shift is done on the
  promoted value and stored back into 16 bits, which drops the oldest sample.
\<close>

definition update :: "bool \<Rightarrow> 32 word \<Rightarrow> Debounce16 \<Rightarrow> Debounce16" where
  "update pinLevel currentTime s =
     (let currentState = readButtonRaw pinLevel s;
          s1 = s\<lparr>historyButton :=
                   push_bit 1 (historyButton s) OR (if currentState then 1 else 0)\<rparr>
      in if flagEnableDoublePress s1 \<or> flagEnableLongPress s1
         then updateStateMachine currentTime s1
         else s1)"

text \<open>A run of ticks, each with its pin level and its clock value.\<close>

fun ticks :: "(bool \<times> 32 word) list \<Rightarrow> Debounce16 \<Rightarrow> Debounce16" where
  "ticks [] s = s"
| "ticks ((pinLevel, currentTime) # rest) s = ticks rest (update pinLevel currentTime s)"

section \<open>Auxiliary notions for the statements\<close>

text \<open>
  \<open>keeps s s'\<close>: the history, the pin, the polarity, the configuration and the
  handler slots of \<open>s'\<close> are those of \<open>s\<close>.
\<close>

definition keeps :: "Debounce16 \<Rightarrow> Debounce16 \<Rightarrow> bool" where
  "keeps s s' \<longleftrightarrow>
     historyButton s' = historyButton s \<and> pinButton s' = pinButton s
     \<and> levelActive s' = levelActive s
     \<and> flagEnableDoublePress s' = flagEnableDoublePress s
     \<and> flagEnableLongPress s' = flagEnableLongPress s
     \<and> windowDoublePress s' = windowDoublePress s
     \<and> thresholdLongPress s' = thresholdLongPress s
     \<and> callbackPress s' = callbackPress s \<and> callbackRelease s' = callbackRelease s
     \<and> callbackDoublePress s' = callbackDoublePress s
     \<and> callbackLongPressStart s' = callbackLongPressStart s
     \<and> callbackLongPressEnd s' = callbackLongPressEnd s"

text \<open>
  \<open>sampleOn s x\<close>: the tick \<open>x\<close> admits an ON sample into the history of an object
  with the polarity of \<open>s\<close>.
\<close>

definition sampleOn :: "Debounce16 \<Rightarrow> bool \<times> 32 word \<Rightarrow> bool" where
  "sampleOn s x = readButtonRaw (fst x) s"

text \<open>
  \<open>sampled pinLevel s\<close>: the object after the first two statements of \<^verbatim>\<open>update\<close>,
  that is with the new sample admitted and the state machine not yet run.
\<close>

definition sampled :: "bool \<Rightarrow> Debounce16 \<Rightarrow> Debounce16" where
  "sampled pinLevel s =
     s\<lparr>historyButton :=
         push_bit 1 (historyButton s) OR (if readButtonRaw pinLevel s then 1 else 0)\<rparr>"

text \<open>\<open>firedDuring s s'\<close>: the handlers called on the way from \<open>s\<close> to \<open>s'\<close>, in order.\<close>

definition firedDuring :: "Debounce16 \<Rightarrow> Debounce16 \<Rightarrow> handler list" where
  "firedDuring s s' = drop (length (invoked s)) (invoked s')"

text \<open>
  The public member functions as values, and their effect on the object; a list
  of calls is what a caller can do to an object after constructing it.
\<close>

datatype call =
    Update bool "32 word"
  | IsPressed
  | IsReleased
  | IsDown
  | IsUp
  | EnableDoublePressDetection bool
  | SetDoublePressWindow "16 word"
  | EnableLongPressDetection bool
  | SetLongPressThreshold "16 word"
  | IsDoublePressed
  | IsLongPressed
  | GetClickCount
  | OnPress "handler option"
  | OnRelease "handler option"
  | OnDoublePress "handler option"
  | OnLongPressStart "handler option"
  | OnLongPressEnd "handler option"

fun perform :: "call \<Rightarrow> Debounce16 \<Rightarrow> Debounce16" where
  "perform (Update pinLevel currentTime) s = update pinLevel currentTime s"
| "perform IsPressed s = snd (isPressed s)"
| "perform IsReleased s = snd (isReleased s)"
| "perform IsDown s = s"
| "perform IsUp s = s"
| "perform (EnableDoublePressDetection enable) s = enableDoublePressDetection enable s"
| "perform (SetDoublePressWindow windowMs) s = setDoublePressWindow windowMs s"
| "perform (EnableLongPressDetection enable) s = enableLongPressDetection enable s"
| "perform (SetLongPressThreshold thresholdMs) s = setLongPressThreshold thresholdMs s"
| "perform IsDoublePressed s = snd (isDoublePressed s)"
| "perform IsLongPressed s = s"
| "perform GetClickCount s = snd (getClickCount s)"
| "perform (OnPress callback) s = onPress callback s"
| "perform (OnRelease callback) s = onRelease callback s"
| "perform (OnDoublePress callback) s = onDoublePress callback s"
| "perform (OnLongPressStart callback) s = onLongPressStart callback s"
| "perform (OnLongPressEnd callback) s = onLongPressEnd callback s"

fun performAll :: "call list \<Rightarrow> Debounce16 \<Rightarrow> Debounce16" where
  "performAll [] s = s"
| "performAll (c # cs) s = performAll cs (perform c s)"

text \<open>
  Polling: \<^verbatim>\<open>isPressed\<close> is called once after every tick; the results are
  collected in the order of the ticks.
\<close>

fun pollPressed :: "(bool \<times> 32 word) list \<Rightarrow> Debounce16 \<Rightarrow> bool list \<times> Debounce16" where
  "pollPressed [] s = ([], s)"
| "pollPressed ((pinLevel, currentTime) # rest) s =
     (let (r, s1) = isPressed (update pinLevel currentTime s);
          (rs, s2) = pollPressed rest s1
      in (r # rs, s2))"

text \<open>
  \<open>sixthOfRun bs i\<close>: sample \<open>i\<close> of \<open>bs\<close> is the sixth sample of a maximal run
  of ON samples, that is, samples \<open>i - 5\<close> to \<open>i\<close> are ON and the run starts at
  \<open>i - 5\<close> (there is no sample \<open>i - 6\<close>, or it is OFF).  A maximal run of fewer
  than six ON samples has no such sample and a longer one has exactly one.
\<close>

definition sixthOfRun :: "bool list \<Rightarrow> nat \<Rightarrow> bool" where
  "sixthOfRun bs i \<longleftrightarrow>
     5 \<le> i \<and> list_all (\<lambda>j. bs ! (i - j)) [0..<6] \<and> (i = 5 \<or> \<not> bs ! (i - 6))"

text \<open>The invariant of the click counter: in \<open>STATE_IDLE\<close> it is 0.\<close>

definition idleCountZero :: "Debounce16 \<Rightarrow> bool" where
  "idleCountZero s \<longleftrightarrow> (stateButton s = STATE_IDLE \<longrightarrow> countClick s = 0)"

section \<open>Scenarios\<close>

text \<open>
  \<open>msTicks pinLevel a b\<close>: ticks at a cadence of 1 ms, at the clock values
  \<open>a, a + 1, \<dots>, b - 1\<close>, all reading \<open>pinLevel\<close>.
\<close>

definition msTicks :: "bool \<Rightarrow> nat \<Rightarrow> nat \<Rightarrow> (bool \<times> 32 word) list" where
  "msTicks pinLevel a b = map (\<lambda>i. (pinLevel, of_nat i)) [a..<b]"

text \<open>
  Objects on pin 17, active high, with the handlers 1 (press), 2 (release),
  3 (long-press start), 4 (long-press end) and 5 (double press) registered:
  one with long-press detection enabled at a threshold of 1000 ms, one with
  double-press detection enabled at a window of 300 ms.
\<close>

definition withHandlers :: "Debounce16 \<Rightarrow> Debounce16" where
  "withHandlers s =
     onDoublePress (Some 5) (onLongPressEnd (Some 4) (onLongPressStart (Some 3)
       (onRelease (Some 2) (onPress (Some 1) s))))"

definition longPressButton :: Debounce16 where
  "longPressButton =
     setLongPressThreshold 1000
       (enableLongPressDetection True (withHandlers (Debounce16_ctor 17 True)))"

definition doublePressButton :: Debounce16 where
  "doublePressButton =
     setDoublePressWindow 300
       (enableDoublePressDetection True (withHandlers (Debounce16_ctor 17 True)))"

section \<open>The history as a sequence of bits\<close>

lemma mask_press_numeral: "(0x3F :: 16 word) = mask 6"
  by (simp add: mask_eq_exp_minus_1)

lemma mask_release_numeral: "(0xFC00 :: 16 word) = push_bit 10 (mask 6)"
  by (simp add: mask_eq_exp_minus_1)

lemma pattern_down_numeral: "(0xFFFF :: 16 word) = mask 16"
  by (simp add: mask_eq_exp_minus_1)

lemma press_pattern_bits:
  fixes h :: "16 word"
  shows "(h AND MASK_PRESS = PATTERN_PRESS) \<longleftrightarrow> (\<forall>k<6. bit h k)"
proof -
  have "(h AND mask 6 = mask 6) \<longleftrightarrow> (\<forall>n<16. n < 6 \<longrightarrow> bit h n)"
    by (auto simp add: bit_eq_iff bit_simps)
  also have "\<dots> \<longleftrightarrow> (\<forall>k<6. bit h k)"
    by auto
  finally show ?thesis
    by (simp only: MASK_PRESS_def PATTERN_PRESS_def mask_press_numeral)
qed

lemma release_pattern_bits:
  fixes h :: "16 word"
  shows "(h AND MASK_RELEASE = PATTERN_RELEASE) \<longleftrightarrow> (\<forall>k. 10 \<le> k \<and> k < 16 \<longrightarrow> bit h k)"
  unfolding MASK_RELEASE_def PATTERN_RELEASE_def mask_release_numeral
  by (auto simp add: bit_eq_iff bit_simps)

lemma pattern_down_bits:
  fixes h :: "16 word"
  shows "(h = PATTERN_DOWN) \<longleftrightarrow> (\<forall>k<16. bit h k)"
  unfolding PATTERN_DOWN_def pattern_down_numeral
  by (auto simp add: bit_eq_iff bit_simps dest: bit_imp_le_length)

lemma pattern_up_bits:
  fixes h :: "16 word"
  shows "(h = PATTERN_UP) \<longleftrightarrow> (\<forall>k<16. \<not> bit h k)"
  unfolding PATTERN_UP_def
  by (auto simp add: bit_eq_iff bit_simps dest: bit_imp_le_length)

lemma shifted_history_bits:
  fixes h :: "16 word"
  shows "bit (push_bit 1 h OR (if b then 1 else 0)) k
           = (k < 16 \<and> (if k = 0 then b else bit h (k - 1)))"
  unfolding bit_or_iff bit_push_bit_iff
  by (cases b) (auto simp add: bit_simps dest: bit_imp_le_length)

section \<open>One-shot reads and the click counter\<close>

text \<open>
  C8.  \<^verbatim>\<open>getClickCount\<close> returns the click counter.  Its only effect is on the
  counter, which becomes 0 when the machine is in \<open>STATE_IDLE\<close> and keeps its
  value otherwise; outside \<open>STATE_IDLE\<close> the whole object is left as it was, and
  no handler is called.
\<close>

theorem getClickCount_frame:
  "fst (getClickCount s) = countClick s
   \<and> snd (getClickCount s)
       = s\<lparr>countClick := (if stateButton s = STATE_IDLE then 0 else countClick s)\<rparr>
   \<and> (stateButton s \<noteq> STATE_IDLE \<longrightarrow> snd (getClickCount s) = s)
   \<and> (snd (getClickCount s) \<noteq> s \<longleftrightarrow> stateButton s = STATE_IDLE \<and> 0 < countClick s)"
proof -
  have zero: "\<not> 0 < countClick s \<Longrightarrow> countClick s = 0"
    using word_neq_0_conv by blast
  have same: "s\<lparr>countClick := countClick s\<rparr> = s"
    by simp
  have diff: "0 < countClick s \<Longrightarrow> s\<lparr>countClick := 0\<rparr> \<noteq> s"
  proof
    assume pos: "0 < countClick s" and eq: "s\<lparr>countClick := 0\<rparr> = s"
    from eq have "countClick (s\<lparr>countClick := 0\<rparr>) = countClick s"
      by simp
    with pos show False
      by simp
  qed
  show ?thesis
    using zero same diff by (auto simp add: getClickCount_def Let_def)
qed

theorem getClickCount_frame_witness:
  "fst (getClickCount (Debounce16_ctor 17 True\<lparr>stateButton := STATE_RELEASE_FIRST, countClick := 1\<rparr>)) = 1
   \<and> snd (getClickCount (Debounce16_ctor 17 True\<lparr>stateButton := STATE_RELEASE_FIRST, countClick := 1\<rparr>))
       = Debounce16_ctor 17 True\<lparr>stateButton := STATE_RELEASE_FIRST, countClick := 1\<rparr>
   \<and> countClick (snd (getClickCount (Debounce16_ctor 17 True\<lparr>countClick := 1\<rparr>))) = 0"
  using getClickCount_frame
          [of "Debounce16_ctor 17 True\<lparr>stateButton := STATE_RELEASE_FIRST, countClick := 1\<rparr>"]
        getClickCount_frame [of "Debounce16_ctor 17 True\<lparr>countClick := 1\<rparr>"]
  by (simp add: Debounce16_ctor_def getClickCount_def)

text \<open>
  C9.  When \<^verbatim>\<open>isDoublePressed\<close> returns true, a second call made directly after
  it returns false: the first call has cleared \<open>flagDoublePressed\<close>, and that is
  all it has changed.  A call that returns false changes nothing.
\<close>

theorem isDoublePressed_one_shot:
  "(fst (isDoublePressed s) \<longrightarrow>
      \<not> fst (isDoublePressed (snd (isDoublePressed s)))
      \<and> snd (isDoublePressed s) = s\<lparr>flagDoublePressed := False\<rparr>)
   \<and> (\<not> fst (isDoublePressed s) \<longrightarrow> snd (isDoublePressed s) = s)
   \<and> fst (isDoublePressed s) = flagDoublePressed s"
  by (simp add: isDoublePressed_def Let_def)

theorem isDoublePressed_one_shot_witness:
  "fst (isDoublePressed (Debounce16_ctor 17 True\<lparr>flagDoublePressed := True\<rparr>))
   \<and> \<not> fst (isDoublePressed (snd (isDoublePressed (Debounce16_ctor 17 True\<lparr>flagDoublePressed := True\<rparr>))))
   \<and> snd (isDoublePressed (Debounce16_ctor 17 True\<lparr>flagDoublePressed := True\<rparr>))
       = Debounce16_ctor 17 True"
  using isDoublePressed_one_shot [of "Debounce16_ctor 17 True\<lparr>flagDoublePressed := True\<rparr>"]
  by (simp add: Debounce16_ctor_def isDoublePressed_def)

section \<open>What a tick leaves alone\<close>

lemma keeps_refl: "keeps s s"
  by (simp add: keeps_def)

lemma keeps_isPressed: "keeps s (snd (isPressed s))"
  by (simp add: keeps_def isPressed_def triggerCallback_def split: option.splits)

lemma keeps_updateStateMachine: "keeps s (updateStateMachine t s)"
  using keeps_isPressed [of s]
  by (cases "stateButton s")
     (auto simp add: updateStateMachine_def keeps_def Let_def resetState_def split_beta
        isReleased_def triggerCallback_def split: option.splits)

lemma keeps_update:
  "keeps (s\<lparr>historyButton := push_bit 1 (historyButton s)
             OR (if readButtonRaw lvl s then 1 else 0)\<rparr>) (update lvl t s)"
proof -
  define s1 where "s1 = s\<lparr>historyButton := push_bit 1 (historyButton s)
             OR (if readButtonRaw lvl s then 1 else 0)\<rparr>"
  have "update lvl t s = (if flagEnableDoublePress s1 \<or> flagEnableLongPress s1
                          then updateStateMachine t s1 else s1)"
    unfolding update_def Let_def s1_def ..
  then have "keeps s1 (update lvl t s)"
    using keeps_updateStateMachine [of s1 t] keeps_refl [of s1]
    by (cases "flagEnableDoublePress s1 \<or> flagEnableLongPress s1") (simp_all only: if_True if_False)
  then show ?thesis
    unfolding s1_def .
qed

lemma keepsD:
  assumes "keeps s s'"
  shows "historyButton s' = historyButton s" "pinButton s' = pinButton s"
    "levelActive s' = levelActive s"
    "flagEnableDoublePress s' = flagEnableDoublePress s"
    "flagEnableLongPress s' = flagEnableLongPress s"
    "windowDoublePress s' = windowDoublePress s"
    "thresholdLongPress s' = thresholdLongPress s"
    "callbackPress s' = callbackPress s" "callbackRelease s' = callbackRelease s"
    "callbackDoublePress s' = callbackDoublePress s"
    "callbackLongPressStart s' = callbackLongPressStart s"
    "callbackLongPressEnd s' = callbackLongPressEnd s"
  using assms unfolding keeps_def by blast+

lemma keeps_update_config:
  "pinButton (update lvl t s) = pinButton s"
  "levelActive (update lvl t s) = levelActive s"
  "flagEnableDoublePress (update lvl t s) = flagEnableDoublePress s"
  "flagEnableLongPress (update lvl t s) = flagEnableLongPress s"
  "windowDoublePress (update lvl t s) = windowDoublePress s"
  "thresholdLongPress (update lvl t s) = thresholdLongPress s"
  "callbackPress (update lvl t s) = callbackPress s"
  "callbackRelease (update lvl t s) = callbackRelease s"
  "callbackDoublePress (update lvl t s) = callbackDoublePress s"
  "callbackLongPressStart (update lvl t s) = callbackLongPressStart s"
  "callbackLongPressEnd (update lvl t s) = callbackLongPressEnd s"
  by (simp_all add: keepsD(2-12) [OF keeps_update])

lemma historyButton_update:
  "historyButton (update lvl t s)
     = push_bit 1 (historyButton s) OR (if readButtonRaw lvl s then 1 else 0)"
  by (simp only: keepsD(1) [OF keeps_update]) simp




lemma ticks_append: "ticks (xs @ ys) s = ticks ys (ticks xs s)"
proof (induction xs arbitrary: s)
  case Nil
  show ?case by simp
next
  case (Cons x xs)
  obtain lvl t where x: "x = (lvl, t)" by (cases x)
  show ?case by (simp add: x Cons.IH)
qed

lemma levelActive_ticks: "levelActive (ticks xs s) = levelActive s"
proof (induction xs arbitrary: s)
  case Nil
  show ?case by simp
next
  case (Cons x xs)
  obtain lvl t where x: "x = (lvl, t)" by (cases x)
  show ?case by (simp add: x Cons.IH keeps_update_config)
qed

lemma readButtonRaw_ticks: "readButtonRaw lvl (ticks xs s) = readButtonRaw lvl s"
  by (simp add: readButtonRaw_def levelActive_ticks)

lemma history_bits_ticks:
  "bit (historyButton (ticks xs s)) k
     = (k < 16 \<and> (if k < length xs then readButtonRaw (fst (rev xs ! k)) s
                  else bit (historyButton s) (k - length xs)))"
proof (induction xs arbitrary: k rule: rev_induct)
  case Nil
  then show ?case by (auto dest: bit_imp_le_length)
next
  case (snoc x xs)
  obtain lvl t where x: "x = (lvl, t)" by (cases x)
  have "bit (historyButton (ticks (xs @ [x]) s)) k
          = bit (push_bit 1 (historyButton (ticks xs s))
                 OR (if readButtonRaw lvl s then 1 else 0)) k"
    by (simp only: x ticks_append ticks.simps historyButton_update readButtonRaw_ticks)
  also have "\<dots> = (k < 16 \<and> (if k = 0 then readButtonRaw lvl s
                                 else bit (historyButton (ticks xs s)) (k - 1)))"
    by (rule shifted_history_bits)
  also have "\<dots> = (k < 16 \<and> (if k < length (xs @ [x]) then readButtonRaw (fst (rev (xs @ [x]) ! k)) s
                  else bit (historyButton s) (k - length (xs @ [x]))))"
    by (cases k) (auto simp add: x snoc.IH)
  finally show ?case .
qed

section \<open>Steady state queries\<close>

text \<open>
  C6.  \<^verbatim>\<open>isDown\<close> holds exactly when all 16 bits of the history are set, and
  \<^verbatim>\<open>isUp\<close> exactly when all 16 are clear.  After a run of at least 16 ticks
  these bits are the last 16 admitted samples: \<^verbatim>\<open>isDown\<close> holds exactly when
  they were all ON, \<^verbatim>\<open>isUp\<close> exactly when they were all OFF.
\<close>

theorem isDown_isUp_all_bits:
  "(isDown s \<longleftrightarrow> (\<forall>k<16. bit (historyButton s) k))
   \<and> (isUp s \<longleftrightarrow> (\<forall>k<16. \<not> bit (historyButton s) k))
   \<and> (16 \<le> length xs \<longrightarrow>
        (isDown (ticks xs s) \<longleftrightarrow> list_all (sampleOn s) (take 16 (rev xs)))
        \<and> (isUp (ticks xs s) \<longleftrightarrow> list_all (\<lambda>x. \<not> sampleOn s x) (take 16 (rev xs))))"
proof -
  have bits: "isDown s \<longleftrightarrow> (\<forall>k<16. bit (historyButton s) k)"
    "isUp s \<longleftrightarrow> (\<forall>k<16. \<not> bit (historyButton s) k)" for s
    by (simp_all add: isDown_def isUp_def pattern_down_bits pattern_up_bits)
  have run: "(isDown (ticks xs s) \<longleftrightarrow> list_all (sampleOn s) (take 16 (rev xs)))
      \<and> (isUp (ticks xs s) \<longleftrightarrow> list_all (\<lambda>x. \<not> sampleOn s x) (take 16 (rev xs)))"
    if len: "16 \<le> length xs"
  proof -
    have "\<And>k. k < 16 \<Longrightarrow> bit (historyButton (ticks xs s)) k = sampleOn s (rev xs ! k)"
      using len by (simp add: history_bits_ticks sampleOn_def)
    then show ?thesis
      using len by (simp add: bits list_all_length)
  qed
  show ?thesis
    using bits [of s] run by blast
qed

theorem isDown_isUp_all_bits_witness:
  "isUp (Debounce16_ctor 17 True) \<and> \<not> isDown (Debounce16_ctor 17 True)
   \<and> \<not> bit (historyButton (Debounce16_ctor 17 True)) 0
   \<and> isDown (ticks (replicate 16 (True, 0)) (Debounce16_ctor 17 True))
   \<and> \<not> isUp (ticks (replicate 16 (True, 0)) (Debounce16_ctor 17 True))
   \<and> list_all (sampleOn (Debounce16_ctor 17 True)) (take 16 (rev (replicate 16 (True, 0))))"
proof -
  let ?s = "Debounce16_ctor 17 True"
  let ?xs = "replicate 16 (True, 0 :: 32 word)"
  have len: "16 \<le> length ?xs"
    by simp
  have on: "list_all (sampleOn ?s) (take 16 (rev ?xs))"
    by (simp add: sampleOn_def readButtonRaw_def Debounce16_ctor_def list_all_length)
  have off: "\<not> list_all (\<lambda>x. \<not> sampleOn ?s x) (take 16 (rev ?xs))"
    by (simp add: sampleOn_def readButtonRaw_def Debounce16_ctor_def numeral_eq_Suc)
  have up: "\<forall>k<16. \<not> bit (historyButton ?s) k"
    by (simp add: Debounce16_ctor_def PATTERN_UP_def)
  have z: "(0::nat) < 16"
    by simp
  from isDown_isUp_all_bits [of ?s ?xs] len on off up z show ?thesis
    by blast
qed

section \<open>The edge tests\<close>

lemmas ops = Debounce16_ctor_def update_def updateStateMachine_def isPressed_def isReleased_def
  resetState_def triggerCallback_def readButtonRaw_def enableLongPressDetection_def
  enableDoublePressDetection_def onPress_def onRelease_def onDoublePress_def
  onLongPressStart_def onLongPressEnd_def setDoublePressWindow_def setLongPressThreshold_def
  MASK_PRESS_def PATTERN_PRESS_def MASK_RELEASE_def PATTERN_RELEASE_def
  PATTERN_UP_def PATTERN_DOWN_def

lemma isPressed_pattern:
  "fst (isPressed s) \<longleftrightarrow> (\<forall>k<6. bit (historyButton s) k) \<and> \<not> flagPressProcessed s"
  by (simp add: isPressed_def press_pattern_bits)

lemma isReleased_pattern:
  "fst (isReleased s) \<longleftrightarrow>
     (\<forall>k. 10 \<le> k \<and> k < 16 \<longrightarrow> bit (historyButton s) k) \<and> \<not> flagReleaseProcessed s"
  by (simp add: isReleased_def release_pattern_bits)

text \<open>
  C1.  The release test of \<^verbatim>\<open>isReleased\<close> masks the history with \<open>0xFC00\<close> and so
  looks at bits 15 to 10 only (lemma \<open>isReleased_pattern\<close>); bits 9 to 0 are not
  required to be OFF.  After 16 ON samples on a new object the history is
  \<open>0xFFFF\<close>, the button is steadily down, and \<^verbatim>\<open>isReleased\<close> returns true and
  calls the release handler.
\<close>

theorem isReleased_fires_while_steady_down:
  "historyButton (ticks (replicate 16 (True, 0)) (onRelease (Some 2) (Debounce16_ctor 17 True)))
     = 0xFFFF
   \<and> isDown (ticks (replicate 16 (True, 0)) (onRelease (Some 2) (Debounce16_ctor 17 True)))
   \<and> fst (isReleased
            (ticks (replicate 16 (True, 0)) (onRelease (Some 2) (Debounce16_ctor 17 True))))
   \<and> invoked (snd (isReleased
            (ticks (replicate 16 (True, 0)) (onRelease (Some 2) (Debounce16_ctor 17 True)))))
       = [2]"
  by code_simp

section \<open>The tick and the state machine\<close>

lemma update_sampled:
  "update lvl t s = (if flagEnableDoublePress s \<or> flagEnableLongPress s
                     then updateStateMachine t (sampled lvl s) else sampled lvl s)"
  by (simp add: update_def sampled_def Let_def)

lemma sampled_fields:
  "stateButton (sampled lvl s) = stateButton s"
  "flagPressProcessed (sampled lvl s) = flagPressProcessed s"
  "flagReleaseProcessed (sampled lvl s) = flagReleaseProcessed s"
  "callbackPress (sampled lvl s) = callbackPress s"
  "callbackRelease (sampled lvl s) = callbackRelease s"
  "invoked (sampled lvl s) = invoked s"
  "flagEnableDoublePress (sampled lvl s) = flagEnableDoublePress s"
  "flagEnableLongPress (sampled lvl s) = flagEnableLongPress s"
  by (simp_all add: sampled_def)

text \<open>The release test reads the history and its own guard only.\<close>

lemma isReleased_cong:
  "historyButton s' = historyButton s \<Longrightarrow> flagReleaseProcessed s' = flagReleaseProcessed s
     \<Longrightarrow> fst (isReleased s') = fst (isReleased s)"
  by (simp add: isReleased_def)

text \<open>The state machine, phase by phase.\<close>

lemma usm_idle:
  "stateButton s = STATE_IDLE \<Longrightarrow>
     updateStateMachine t s =
       (if fst (isPressed s)
        then (snd (isPressed s))\<lparr>timePress := t, countClick := 1,
                                   stateButton := STATE_PRESS_FIRST\<rparr>
        else snd (isPressed s))"
  by (simp add: updateStateMachine_def split_beta)

lemma usm_release_first:
  "stateButton s = STATE_RELEASE_FIRST \<Longrightarrow>
     updateStateMachine t s =
       (let s1 = snd (isPressed s)
        in if fst (isPressed s) \<and> t - timeEvent s < ucast (windowDoublePress s1)
           then s1\<lparr>countClick := 2, timePress := t, stateButton := STATE_PRESS_FIRST\<rparr>
           else if ucast (windowDoublePress s1) \<le> t - timeEvent s
           then resetState (if countClick s1 = 2
                            then triggerCallback (callbackDoublePress s1)
                                   (s1\<lparr>flagDoublePressed := True\<rparr>)
                            else s1)
           else s1)"
  by (simp add: updateStateMachine_def split_beta Let_def)

lemma usm_long_press_active:
  "stateButton s = STATE_LONG_PRESS_ACTIVE \<Longrightarrow>
     updateStateMachine t s =
       (if fst (isReleased s)
        then resetState (triggerCallback (callbackLongPressEnd (snd (isReleased s)))
                           ((snd (isReleased s))\<lparr>flagLongPressed := False\<rparr>))
        else snd (isReleased s))"
  by (simp add: updateStateMachine_def split_beta)

lemma usm_press_first:
  "stateButton s = STATE_PRESS_FIRST \<Longrightarrow>
     updateStateMachine t s =
       (let s1 = (if flagEnableLongPress s
                     \<and> ucast (thresholdLongPress s) \<le> t - timePress s \<and> \<not> flagLongPressed s
                  then triggerCallback (callbackLongPressStart s)
                         (s\<lparr>flagLongPressed := True, stateButton := STATE_LONG_PRESS_ACTIVE\<rparr>)
                  else s);
            s2 = snd (isReleased s1)
        in if fst (isReleased s1)
           then (if flagLongPressed s2 then resetState (s2\<lparr>timeEvent := t\<rparr>)
                 else if flagEnableDoublePress s2
                 then s2\<lparr>timeEvent := t, stateButton := STATE_RELEASE_FIRST\<rparr>
                 else resetState (s2\<lparr>timeEvent := t\<rparr>))
           else s2)"
  by (simp add: updateStateMachine_def split_beta Let_def)

lemma triggerCallback_fields:
  "historyButton (triggerCallback c s) = historyButton s"
  "flagPressProcessed (triggerCallback c s) = flagPressProcessed s"
  "flagReleaseProcessed (triggerCallback c s) = flagReleaseProcessed s"
  "stateButton (triggerCallback c s) = stateButton s"
  "countClick (triggerCallback c s) = countClick s"
  "flagDoublePressed (triggerCallback c s) = flagDoublePressed s"
  "flagLongPressed (triggerCallback c s) = flagLongPressed s"
  "callbackRelease (triggerCallback c s) = callbackRelease s"
  "callbackPress (triggerCallback c s) = callbackPress s"
  by (simp_all add: triggerCallback_def split: option.splits)

lemma invoked_triggerCallback:
  "invoked (triggerCallback c s) = invoked s @ (case c of None \<Rightarrow> [] | Some f \<Rightarrow> [f])"
  by (simp add: triggerCallback_def split: option.splits)

lemma resetState_fields:
  "historyButton (resetState s) = historyButton s"
  "flagPressProcessed (resetState s) = flagPressProcessed s"
  "flagReleaseProcessed (resetState s) = flagReleaseProcessed s"
  "invoked (resetState s) = invoked s"
  "stateButton (resetState s) = STATE_IDLE"
  "countClick (resetState s) = 0"
  by (simp_all add: resetState_def)

text \<open>What the state machine does to the press guard in the phases that listen for a press.\<close>

lemma usm_press_phase:
  assumes "stateButton s = STATE_IDLE \<or> stateButton s = STATE_RELEASE_FIRST"
  shows "historyButton (updateStateMachine t s) = historyButton (snd (isPressed s))"
    and "flagPressProcessed (updateStateMachine t s) = flagPressProcessed (snd (isPressed s))"
    and "prefix (invoked (snd (isPressed s))) (invoked (updateStateMachine t s))"
  using assms
  by (elim disjE; simp add: usm_idle usm_release_first Let_def resetState_fields
        triggerCallback_fields invoked_triggerCallback)+

lemma isReleased_fields:
  "historyButton (snd (isReleased s)) = historyButton s"
  "flagPressProcessed (snd (isReleased s)) = flagPressProcessed s"
  "stateButton (snd (isReleased s)) = stateButton s"
  "invoked (snd (isReleased s))
     = invoked s @ (if fst (isReleased s)
                    then (case callbackRelease s of None \<Rightarrow> [] | Some f \<Rightarrow> [f]) else [])"
  by (simp_all add: isReleased_def triggerCallback_fields invoked_triggerCallback)

lemma isPressed_fields:
  "historyButton (snd (isPressed s)) = historyButton s"
  "flagReleaseProcessed (snd (isPressed s)) = flagReleaseProcessed s"
  "stateButton (snd (isPressed s)) = stateButton s"
  "invoked (snd (isPressed s))
     = invoked s @ (if fst (isPressed s)
                    then (case callbackPress s of None \<Rightarrow> [] | Some f \<Rightarrow> [f]) else [])"
  by (simp_all add: isPressed_def triggerCallback_fields invoked_triggerCallback)

lemma flagPressProcessed_isPressed:
  "flagPressProcessed (snd (isPressed s)) \<longleftrightarrow> historyButton s AND MASK_PRESS = PATTERN_PRESS"
  by (simp add: isPressed_def triggerCallback_fields)

lemma flagReleaseProcessed_isReleased:
  "flagReleaseProcessed (snd (isReleased s))
     \<longleftrightarrow> historyButton s AND MASK_RELEASE = PATTERN_RELEASE"
  by (simp add: isReleased_def triggerCallback_fields)

lemma usm_release_phase:
  assumes "stateButton s = STATE_PRESS_FIRST \<or> stateButton s = STATE_LONG_PRESS_ACTIVE"
  shows "historyButton (updateStateMachine t s) = historyButton s"
    and "flagReleaseProcessed (updateStateMachine t s)
           \<longleftrightarrow> historyButton s AND MASK_RELEASE = PATTERN_RELEASE"
  using assms
  by (elim disjE; simp add: usm_press_first usm_long_press_active Let_def resetState_fields
        triggerCallback_fields isReleased_fields flagReleaseProcessed_isReleased)+

lemma usm_release_phase_fired:
  assumes "stateButton s = STATE_PRESS_FIRST \<or> stateButton s = STATE_LONG_PRESS_ACTIVE"
    and "fst (isReleased s)" and "callbackRelease s = Some f"
  shows "f \<in> set (firedDuring s (updateStateMachine t s))"
proof -
  have same: "fst (isReleased (triggerCallback c
                 (s\<lparr>flagLongPressed := True, stateButton := STATE_LONG_PRESS_ACTIVE\<rparr>)))
                = fst (isReleased s)" for c
    by (rule isReleased_cong) (simp_all add: triggerCallback_fields)
  from assms show ?thesis
    by (elim disjE; simp add: usm_press_first usm_long_press_active Let_def resetState_fields
        triggerCallback_fields isReleased_fields invoked_triggerCallback firedDuring_def same)+
qed

lemma usm_press_phase_fired:
  assumes "stateButton s = STATE_IDLE \<or> stateButton s = STATE_RELEASE_FIRST"
    and "fst (isPressed s)" and "callbackPress s = Some f"
  shows "f \<in> set (firedDuring s (updateStateMachine t s))"
proof -
  from usm_press_phase(3) [OF assms(1), of t]
  obtain zs where "invoked (updateStateMachine t s) = invoked (snd (isPressed s)) @ zs"
    by (auto simp add: prefix_def)
  with assms(2,3) show ?thesis
    by (simp add: isPressed_fields firedDuring_def)
qed

text \<open>
  C10.  With double-press or long-press detection enabled, a tick runs the
  state machine, which calls \<^verbatim>\<open>isPressed\<close> in \<open>STATE_IDLE\<close> and
  \<open>STATE_RELEASE_FIRST\<close> and \<^verbatim>\<open>isReleased\<close> in \<open>STATE_PRESS_FIRST\<close> and
  \<open>STATE_LONG_PRESS_ACTIVE\<close>.  In these phases a call of \<^verbatim>\<open>isPressed\<close>
  (\<^verbatim>\<open>isReleased\<close>) made after the tick returns false; if the edge was due at
  this tick, the tick has set the guard and has called the registered press
  (release) handler.  With both features disabled the tick only admits the
  sample, so the call made after the tick returns what it returns on the
  sampled history: a due edge is seen by the caller.
\<close>

theorem tick_consumes_edges:
  "((flagEnableDoublePress s \<or> flagEnableLongPress s)
      \<and> (stateButton s = STATE_IDLE \<or> stateButton s = STATE_RELEASE_FIRST) \<longrightarrow>
        \<not> fst (isPressed (update lvl t s))
        \<and> (fst (isPressed (sampled lvl s)) \<longrightarrow>
              flagPressProcessed (update lvl t s)
              \<and> (\<forall>f. callbackPress s = Some f \<longrightarrow> f \<in> set (firedDuring s (update lvl t s)))))
   \<and> ((flagEnableDoublePress s \<or> flagEnableLongPress s)
      \<and> (stateButton s = STATE_PRESS_FIRST \<or> stateButton s = STATE_LONG_PRESS_ACTIVE) \<longrightarrow>
        \<not> fst (isReleased (update lvl t s))
        \<and> (fst (isReleased (sampled lvl s)) \<longrightarrow>
              flagReleaseProcessed (update lvl t s)
              \<and> (\<forall>f. callbackRelease s = Some f \<longrightarrow> f \<in> set (firedDuring s (update lvl t s)))))
   \<and> (\<not> flagEnableDoublePress s \<and> \<not> flagEnableLongPress s \<longrightarrow>
        update lvl t s = sampled lvl s
        \<and> fst (isPressed (update lvl t s)) = fst (isPressed (sampled lvl s))
        \<and> fst (isReleased (update lvl t s)) = fst (isReleased (sampled lvl s)))"
proof -
  let ?s1 = "sampled lvl s"
  have press: "\<not> fst (isPressed (update lvl t s))
        \<and> (fst (isPressed ?s1) \<longrightarrow>
              flagPressProcessed (update lvl t s)
              \<and> (\<forall>f. callbackPress s = Some f \<longrightarrow> f \<in> set (firedDuring s (update lvl t s))))"
    if en: "flagEnableDoublePress s \<or> flagEnableLongPress s"
      and ph: "stateButton s = STATE_IDLE \<or> stateButton s = STATE_RELEASE_FIRST"
  proof -
    have u: "update lvl t s = updateStateMachine t ?s1"
      using en by (simp add: update_sampled)
    have ph1: "stateButton ?s1 = STATE_IDLE \<or> stateButton ?s1 = STATE_RELEASE_FIRST"
      using ph by (simp add: sampled_fields)
    have h: "historyButton (update lvl t s) = historyButton ?s1"
      by (simp add: u usm_press_phase(1) [OF ph1] isPressed_fields)
    have g: "flagPressProcessed (update lvl t s)
               \<longleftrightarrow> historyButton ?s1 AND MASK_PRESS = PATTERN_PRESS"
      by (simp add: u usm_press_phase(2) [OF ph1] flagPressProcessed_isPressed)
    have no: "\<not> fst (isPressed (update lvl t s))"
      by (simp add: isPressed_def h g)
    have fl: "flagPressProcessed (update lvl t s)" if "fst (isPressed ?s1)"
      using that g by (simp add: isPressed_def split: if_splits)
    have fired: "f \<in> set (firedDuring s (update lvl t s))"
      if "fst (isPressed ?s1)" "callbackPress s = Some f" for f
      using usm_press_phase_fired [OF ph1 that(1), of f t] that(2)
      by (simp add: u sampled_fields firedDuring_def)
    from no fl fired show ?thesis
      by blast
  qed
  have release: "\<not> fst (isReleased (update lvl t s))
        \<and> (fst (isReleased ?s1) \<longrightarrow>
              flagReleaseProcessed (update lvl t s)
              \<and> (\<forall>f. callbackRelease s = Some f \<longrightarrow> f \<in> set (firedDuring s (update lvl t s))))"
    if en: "flagEnableDoublePress s \<or> flagEnableLongPress s"
      and ph: "stateButton s = STATE_PRESS_FIRST \<or> stateButton s = STATE_LONG_PRESS_ACTIVE"
  proof -
    have u: "update lvl t s = updateStateMachine t ?s1"
      using en by (simp add: update_sampled)
    have ph1: "stateButton ?s1 = STATE_PRESS_FIRST \<or> stateButton ?s1 = STATE_LONG_PRESS_ACTIVE"
      using ph by (simp add: sampled_fields)
    have h: "historyButton (update lvl t s) = historyButton ?s1"
      by (simp add: u usm_release_phase(1) [OF ph1])
    have g: "flagReleaseProcessed (update lvl t s)
               \<longleftrightarrow> historyButton ?s1 AND MASK_RELEASE = PATTERN_RELEASE"
      by (simp add: u usm_release_phase(2) [OF ph1])
    have no: "\<not> fst (isReleased (update lvl t s))"
      by (simp add: isReleased_def h g)
    have fl: "flagReleaseProcessed (update lvl t s)" if "fst (isReleased ?s1)"
      using that g by (simp add: isReleased_def split: if_splits)
    have fired: "f \<in> set (firedDuring s (update lvl t s))"
      if "fst (isReleased ?s1)" "callbackRelease s = Some f" for f
      using usm_release_phase_fired [OF ph1 that(1), of f t] that(2)
      by (simp add: u sampled_fields firedDuring_def)
    from no fl fired show ?thesis
      by blast
  qed
  have off: "update lvl t s = ?s1"
    if "\<not> flagEnableDoublePress s \<and> \<not> flagEnableLongPress s"
    using that by (simp add: update_sampled)
  have off': "fst (isPressed (update lvl t s)) = fst (isPressed ?s1)
      \<and> fst (isReleased (update lvl t s)) = fst (isReleased ?s1)"
    if "\<not> flagEnableDoublePress s \<and> \<not> flagEnableLongPress s"
    using off [OF that] by simp
  from press release off off' show ?thesis
    by blast
qed

theorem tick_consumes_edges_witness:
  "flagEnableDoublePress
     (ticks (replicate 5 (True, 0))
        (enableDoublePressDetection True (onPress (Some 1) (Debounce16_ctor 17 True))))
   \<and> fst (isPressed (sampled True
        (ticks (replicate 5 (True, 0))
           (enableDoublePressDetection True (onPress (Some 1) (Debounce16_ctor 17 True))))))
   \<and> \<not> fst (isPressed (update True 0
        (ticks (replicate 5 (True, 0))
           (enableDoublePressDetection True (onPress (Some 1) (Debounce16_ctor 17 True))))))
   \<and> 1 \<in> set (firedDuring
        (ticks (replicate 5 (True, 0))
           (enableDoublePressDetection True (onPress (Some 1) (Debounce16_ctor 17 True))))
        (update True 0
           (ticks (replicate 5 (True, 0))
              (enableDoublePressDetection True (onPress (Some 1) (Debounce16_ctor 17 True))))))
   \<and> fst (isPressed (update True 0
        (ticks (replicate 5 (True, 0)) (onPress (Some 1) (Debounce16_ctor 17 True)))))
   \<and> \<not> fst (isReleased (update True 0
        (ticks (replicate 15 (True, 0))
           (enableDoublePressDetection True (onRelease (Some 2) (Debounce16_ctor 17 True))))))
   \<and> 2 \<in> set (firedDuring
        (ticks (replicate 15 (True, 0))
           (enableDoublePressDetection True (onRelease (Some 2) (Debounce16_ctor 17 True))))
        (update True 0
           (ticks (replicate 15 (True, 0))
              (enableDoublePressDetection True (onRelease (Some 2) (Debounce16_ctor 17 True))))))
   \<and> fst (isReleased (update True 0
        (ticks (replicate 15 (True, 0)) (onRelease (Some 2) (Debounce16_ctor 17 True)))))"
proof -
  let ?e = "ticks (replicate 5 (True, 0))
        (enableDoublePressDetection True (onPress (Some 1) (Debounce16_ctor 17 True)))"
  let ?d = "ticks (replicate 5 (True, 0)) (onPress (Some 1) (Debounce16_ctor 17 True))"
  let ?r = "ticks (replicate 15 (True, 0))
           (enableDoublePressDetection True (onRelease (Some 2) (Debounce16_ctor 17 True)))"
  let ?q = "ticks (replicate 15 (True, 0)) (onRelease (Some 2) (Debounce16_ctor 17 True))"
  have e: "flagEnableDoublePress ?e" "stateButton ?e = STATE_IDLE"
    "fst (isPressed (sampled True ?e))" "callbackPress ?e = Some 1"
    by code_simp+
  have d: "\<not> flagEnableDoublePress ?d" "\<not> flagEnableLongPress ?d"
    "fst (isPressed (sampled True ?d))"
    by code_simp+
  have r: "flagEnableDoublePress ?r" "stateButton ?r = STATE_PRESS_FIRST"
    "fst (isReleased (sampled True ?r))" "callbackRelease ?r = Some 2"
    by code_simp+
  have q: "\<not> flagEnableDoublePress ?q" "\<not> flagEnableLongPress ?q"
    "fst (isReleased (sampled True ?q))"
    by code_simp+
  from tick_consumes_edges [of ?e True 0] e
  have 1: "\<not> fst (isPressed (update True 0 ?e))" "1 \<in> set (firedDuring ?e (update True 0 ?e))"
    by blast+
  from tick_consumes_edges [of ?d True 0] d
  have 2: "fst (isPressed (update True 0 ?d))"
    by simp
  from tick_consumes_edges [of ?r True 0] r
  have 3: "\<not> fst (isReleased (update True 0 ?r))" "2 \<in> set (firedDuring ?r (update True 0 ?r))"
    by blast+
  from tick_consumes_edges [of ?q True 0] q
  have 4: "fst (isReleased (update True 0 ?q))"
    by simp
  from e(1,3) 1 2 3 4 show ?thesis
    by blast
qed

section \<open>The click counter in the idle phase\<close>

lemma isPressed_gesture_fields:
  "countClick (snd (isPressed s)) = countClick s"
  "flagDoublePressed (snd (isPressed s)) = flagDoublePressed s"
  "flagLongPressed (snd (isPressed s)) = flagLongPressed s"
  by (simp_all add: isPressed_def triggerCallback_fields)

lemma isReleased_gesture_fields:
  "countClick (snd (isReleased s)) = countClick s"
  "flagDoublePressed (snd (isReleased s)) = flagDoublePressed s"
  "flagLongPressed (snd (isReleased s)) = flagLongPressed s"
  by (simp_all add: isReleased_def triggerCallback_fields)

lemma idleCountZero_updateStateMachine:
  assumes "idleCountZero s"
  shows "idleCountZero (updateStateMachine t s)"
proof (cases "stateButton s")
  case STATE_IDLE
  with assms show ?thesis
    by (simp add: usm_idle idleCountZero_def isPressed_fields isPressed_gesture_fields)
next
  case STATE_PRESS_FIRST
  then show ?thesis
    by (simp add: usm_press_first idleCountZero_def Let_def resetState_fields
        isReleased_fields isReleased_gesture_fields triggerCallback_fields)
next
  case STATE_RELEASE_FIRST
  then show ?thesis
    by (simp add: usm_release_first idleCountZero_def Let_def resetState_fields
        isPressed_fields isPressed_gesture_fields)
next
  case STATE_LONG_PRESS_ACTIVE
  then show ?thesis
    by (simp add: usm_long_press_active idleCountZero_def resetState_fields
        isReleased_fields isReleased_gesture_fields)
next
  case STATE_WAIT_DOUBLE_PRESS
  then show ?thesis
    by (simp add: updateStateMachine_def idleCountZero_def)
next
  case STATE_WAIT_LONG_PRESS
  then show ?thesis
    by (simp add: updateStateMachine_def idleCountZero_def)
qed

lemma idleCountZero_update:
  assumes "idleCountZero s"
  shows "idleCountZero (update lvl t s)"
proof -
  from assms have "idleCountZero (sampled lvl s)"
    by (simp add: idleCountZero_def sampled_def)
  then show ?thesis
    by (simp add: update_sampled idleCountZero_updateStateMachine)
qed

lemma idleCountZero_perform:
  assumes "idleCountZero s"
  shows "idleCountZero (perform c s)"
proof (cases c)
  case (Update lvl t)
  with assms show ?thesis
    by (simp add: idleCountZero_update)
next
  case IsPressed
  with assms show ?thesis
    by (simp add: idleCountZero_def isPressed_fields isPressed_gesture_fields)
next
  case IsReleased
  with assms show ?thesis
    by (simp add: idleCountZero_def isReleased_fields isReleased_gesture_fields)
next
  case (EnableDoublePressDetection enable)
  with assms show ?thesis
    by (simp add: idleCountZero_def enableDoublePressDetection_def Let_def)
next
  case (EnableLongPressDetection enable)
  with assms show ?thesis
    by (simp add: idleCountZero_def enableLongPressDetection_def Let_def)
next
  case IsDoublePressed
  with assms show ?thesis
    by (simp add: idleCountZero_def isDoublePressed_def Let_def)
next
  case GetClickCount
  with assms show ?thesis
    by (simp add: idleCountZero_def getClickCount_def Let_def)
qed (use assms in \<open>simp_all add: idleCountZero_def setDoublePressWindow_def
      setLongPressThreshold_def onPress_def onRelease_def onDoublePress_def
      onLongPressStart_def onLongPressEnd_def\<close>)

lemma idleCountZero_performAll:
  "idleCountZero s \<Longrightarrow> idleCountZero (performAll cs s)"
proof (induction cs arbitrary: s)
  case Nil
  then show ?case by simp
next
  case (Cons c cs)
  then show ?case by (simp add: idleCountZero_perform)
qed

text \<open>
  C7.  The click counter is 0 whenever the phase is \<open>STATE_IDLE\<close>: this holds
  for the constructed object, is preserved by every public member function, and
  so holds after any sequence of calls.  \<^verbatim>\<open>resetState\<close>, the way back to
  \<open>STATE_IDLE\<close>, sets the counter to 0, and so does disabling double-press
  detection, in every phase.
\<close>

theorem idle_click_count_zero:
  "idleCountZero (Debounce16_ctor pin activeLevel)
   \<and> (idleCountZero s \<longrightarrow> idleCountZero (perform c s))
   \<and> idleCountZero (performAll cs (Debounce16_ctor pin activeLevel))
   \<and> stateButton (resetState s) = STATE_IDLE \<and> countClick (resetState s) = 0
   \<and> countClick (enableDoublePressDetection False s) = 0"
proof -
  have init: "idleCountZero (Debounce16_ctor pin activeLevel)"
    by (simp add: idleCountZero_def Debounce16_ctor_def)
  from init idleCountZero_perform [of s c] idleCountZero_performAll [OF init, of cs]
  show ?thesis
    by (simp add: resetState_fields enableDoublePressDetection_def)
qed

theorem idle_click_count_zero_witness:
  "stateButton (performAll (EnableLongPressDetection True # replicate 16 (Update True 0))
                  (Debounce16_ctor 17 True)) = STATE_IDLE
   \<and> countClick (performAll (EnableLongPressDetection True # replicate 16 (Update True 0))
                  (Debounce16_ctor 17 True)) = 0
   \<and> countClick (performAll (EnableLongPressDetection True # replicate 6 (Update True 0))
                  (Debounce16_ctor 17 True)) = 1
   \<and> countClick (enableDoublePressDetection False
                    (performAll (EnableLongPressDetection True # replicate 6 (Update True 0))
                       (Debounce16_ctor 17 True))) = 0"
proof -
  let ?cs = "EnableLongPressDetection True # replicate 16 (Update True 0)"
  let ?s6 = "performAll (EnableLongPressDetection True # replicate 6 (Update True 0))
                       (Debounce16_ctor 17 True)"
  have idle: "stateButton (performAll ?cs (Debounce16_ctor 17 True)) = STATE_IDLE"
    by code_simp
  have one: "countClick ?s6 = 1"
    by code_simp
  from idle_click_count_zero [of 17 True ?s6 IsUp ?cs] idle one show ?thesis
    by (simp add: idleCountZero_def)
qed

section \<open>The press edge of the filter\<close>

lemma pollPressed_snoc:
  "pollPressed (xs @ [(lvl, t)]) s =
     (fst (pollPressed xs s) @ [fst (isPressed (update lvl t (snd (pollPressed xs s))))],
      snd (isPressed (update lvl t (snd (pollPressed xs s)))))"
proof (induction xs arbitrary: s)
  case Nil
  show ?case by (simp add: split_beta)
next
  case (Cons x xs)
  obtain l u where x: "x = (l, u)" by (cases x)
  show ?case by (simp add: x Cons.IH split_beta)
qed

lemma all_less_6: "(\<forall>k<6. Q k) \<longleftrightarrow> Q 0 \<and> Q 1 \<and> Q 2 \<and> Q 3 \<and> Q 4 \<and> Q (5::nat)"
proof -
  have "k < 6 \<longleftrightarrow> k = 0 \<or> k = 1 \<or> k = 2 \<or> k = 3 \<or> k = 4 \<or> k = 5" for k :: nat
    by arith
  then show ?thesis
    by auto
qed

lemma sixthOfRun_iff:
  "sixthOfRun bs i \<longleftrightarrow> 5 \<le> i \<and> (\<forall>j<6. bs ! (i - j)) \<and> (i = 5 \<or> \<not> bs ! (i - 6))"
  by (simp add: sixthOfRun_def list_all_iff) (metis atLeast0LessThan lessThan_iff)

lemma sixthOfRun_append:
  assumes "i < length bs"
  shows "sixthOfRun (bs @ cs) i = sixthOfRun bs i"
proof -
  have "(bs @ cs) ! (i - j) = bs ! (i - j)" for j
  proof -
    from assms have "i - j < length bs" by arith
    then show ?thesis by (simp add: nth_append)
  qed
  then show ?thesis
    by (simp add: sixthOfRun_iff)
qed

lemma historyButton_sampled:
  "historyButton (sampled lvl s)
     = push_bit 1 (historyButton s) OR (if readButtonRaw lvl s then 1 else 0)"
  by (simp add: sampled_def)

lemma sixthOfRun_map:
  assumes "i < length ys"
  shows "sixthOfRun (map f ys) i
           \<longleftrightarrow> 5 \<le> i \<and> (\<forall>j<6. f (ys ! (i - j))) \<and> (i = 5 \<or> \<not> f (ys ! (i - 6)))"
proof -
  have "map f ys ! (i - j) = f (ys ! (i - j))" for j
  proof -
    from assms have "i - j < length ys" by arith
    then show ?thesis by simp
  qed
  then show ?thesis
    by (simp add: sixthOfRun_iff)
qed

lemma pattern_now:
  fixes h :: "16 word"
  assumes "\<And>k. bit h k = (k < 16 \<and> k < Suc n \<and> g (n - k))"
  shows "(h AND MASK_PRESS = PATTERN_PRESS) \<longleftrightarrow> 5 \<le> n \<and> (\<forall>j<6. g (n - j))"
  unfolding press_pattern_bits assms by (auto simp add: all_less_6)

lemma pattern_before:
  fixes h :: "16 word"
  assumes "\<And>k. bit h k = (k < 16 \<and> k < n \<and> g (n - Suc k))"
  shows "(h AND MASK_PRESS = PATTERN_PRESS) \<longleftrightarrow> 6 \<le> n \<and> (\<forall>j<6. g (n - Suc j))"
  unfolding press_pattern_bits assms by (auto simp add: all_less_6)

lemma edge_at_sixth:
  fixes g :: "nat \<Rightarrow> bool"
  shows "(5 \<le> n \<and> (\<forall>j<6. g (n - j))) \<and> \<not> (6 \<le> n \<and> (\<forall>j<6. g (n - Suc j)))
           \<longleftrightarrow> 5 \<le> n \<and> (\<forall>j<6. g (n - j)) \<and> (n = 5 \<or> \<not> g (n - 6))"
  by (auto simp add: all_less_6 numeral_2_eq_2 [symmetric])

text \<open>The filter on its own: both features disabled, polled after every tick.\<close>

lemma pollPressed_filter:
  assumes off: "\<not> flagEnableDoublePress s" "\<not> flagEnableLongPress s"
    and fresh: "historyButton s = PATTERN_UP" "\<not> flagPressProcessed s"
  shows "\<not> flagEnableDoublePress (snd (pollPressed xs s))
       \<and> \<not> flagEnableLongPress (snd (pollPressed xs s))
       \<and> levelActive (snd (pollPressed xs s)) = levelActive s
       \<and> (\<forall>k. bit (historyButton (snd (pollPressed xs s))) k
              = (k < 16 \<and> k < length xs \<and> sampleOn s (xs ! (length xs - Suc k))))
       \<and> (flagPressProcessed (snd (pollPressed xs s))
              \<longleftrightarrow> historyButton (snd (pollPressed xs s)) AND MASK_PRESS = PATTERN_PRESS)
       \<and> length (fst (pollPressed xs s)) = length xs
       \<and> (\<forall>i<length xs. fst (pollPressed xs s) ! i = sixthOfRun (map (sampleOn s) xs) i)"
proof (induction xs rule: rev_induct)
  case Nil
  from off fresh show ?case
    by (simp add: PATTERN_UP_def MASK_PRESS_def PATTERN_PRESS_def)
next
  case (snoc x xs)
  obtain lvl t where x: "x = (lvl, t)" by (cases x)
  let ?p = "snd (pollPressed xs s)"
  let ?u = "update lvl t ?p"
  let ?bs = "map (sampleOn s) xs"
  let ?n = "length xs"
  from snoc have en: "\<not> flagEnableDoublePress ?p" "\<not> flagEnableLongPress ?p"
    and lev: "levelActive ?p = levelActive s"
    and bits: "\<And>k. bit (historyButton ?p) k
                  = (k < 16 \<and> k < ?n \<and> sampleOn s (xs ! (?n - Suc k)))"
    and guard: "flagPressProcessed ?p \<longleftrightarrow> historyButton ?p AND MASK_PRESS = PATTERN_PRESS"
    and len: "length (fst (pollPressed xs s)) = ?n"
    and res: "\<And>i. i < ?n \<Longrightarrow> fst (pollPressed xs s) ! i = sixthOfRun ?bs i"
    by blast+
  have u: "?u = sampled lvl ?p"
    using en by (simp add: update_sampled)
  have on: "readButtonRaw lvl ?p = sampleOn s x"
    by (simp add: readButtonRaw_def sampleOn_def lev x)
  have ubits: "bit (historyButton ?u) k
                 = (k < 16 \<and> k < Suc ?n \<and> sampleOn s ((xs @ [x]) ! (Suc ?n - Suc k)))" for k
  proof -
    have "bit (historyButton ?u) k
            = (k < 16 \<and> (if k = 0 then sampleOn s x else bit (historyButton ?p) (k - 1)))"
      unfolding u historyButton_sampled on by (rule shifted_history_bits)
    also have "\<dots> = (k < 16 \<and> k < Suc ?n \<and> sampleOn s ((xs @ [x]) ! (Suc ?n - Suc k)))"
      by (cases k) (auto simp add: bits nth_append)
    finally show ?thesis .
  qed
  have ugf: "flagPressProcessed ?u = flagPressProcessed ?p"
    by (simp add: u sampled_fields)
  let ?q = "snd (isPressed ?u)"
  have q1: "\<not> flagEnableDoublePress ?q" "\<not> flagEnableLongPress ?q" "levelActive ?q = levelActive s"
    using en lev keepsD [OF keeps_isPressed [of ?u]] by (simp_all add: u sampled_def)
  have q2: "historyButton ?q = historyButton ?u"
    by (simp add: isPressed_fields)
  have q3: "flagPressProcessed ?q \<longleftrightarrow> historyButton ?q AND MASK_PRESS = PATTERN_PRESS"
    by (simp add: q2 flagPressProcessed_isPressed)
  have new: "fst (isPressed ?u) = sixthOfRun (map (sampleOn s) (xs @ [x])) ?n"
  proof -
    define g where "g j = sampleOn s ((xs @ [x]) ! j)" for j
    have gu: "bit (historyButton ?u) k = (k < 16 \<and> k < Suc ?n \<and> g (?n - k))" for k
      by (simp add: ubits g_def)
    have gp: "bit (historyButton ?p) k = (k < 16 \<and> k < ?n \<and> g (?n - Suc k))" for k
      by (auto simp add: bits g_def nth_append)
    have "fst (isPressed ?u) \<longleftrightarrow>
            (historyButton ?u AND MASK_PRESS = PATTERN_PRESS)
            \<and> \<not> (historyButton ?p AND MASK_PRESS = PATTERN_PRESS)"
      by (simp add: isPressed_def ugf guard)
    also have "\<dots> \<longleftrightarrow> 5 \<le> ?n \<and> (\<forall>j<6. g (?n - j)) \<and> (?n = 5 \<or> \<not> g (?n - 6))"
      unfolding pattern_now [of "historyButton ?u" ?n g, OF gu]
        pattern_before [of "historyButton ?p" ?n g, OF gp]
      by (rule edge_at_sixth)
    also have "\<dots> \<longleftrightarrow> sixthOfRun (map (sampleOn s) (xs @ [x])) ?n"
      unfolding g_def by (rule sixthOfRun_map [symmetric]) simp
    finally show ?thesis .
  qed
  have P: "pollPressed (xs @ [x]) s = (fst (pollPressed xs s) @ [fst (isPressed ?u)], ?q)"
    by (simp add: x pollPressed_snoc)
  have r: "fst (pollPressed (xs @ [x]) s) ! i = sixthOfRun (map (sampleOn s) (xs @ [x])) i"
    if "i < length (xs @ [x])" for i
  proof (cases "i < ?n")
    case True
    then show ?thesis
      by (simp add: P nth_append len res sixthOfRun_append)
  next
    case False
    with that have "i = ?n" by simp
    then show ?thesis
      using new by (simp add: P nth_append len del: map_append)
  qed
  show ?case
    unfolding P fst_conv snd_conv
    using q1 q3 r ubits by (simp add: q2 len P)
qed

text \<open>
  Within a run of ON samples that starts at sample \<open>a\<close> (the first sample, or
  the one after an OFF sample), the sixth-of-run sample is sample \<open>a + 5\<close> and no
  other; an OFF sample is never one.
\<close>

lemma sixthOfRun_off: "\<not> bs ! i \<Longrightarrow> \<not> sixthOfRun bs i"
  by (simp add: sixthOfRun_iff all_less_6)

lemma sixthOfRun_in_run:
  assumes start: "a = 0 \<or> \<not> bs ! (a - 1)"
    and on: "\<forall>j<n. bs ! (a + j)"
    and i: "a \<le> i" "i < a + n"
  shows "sixthOfRun bs i \<longleftrightarrow> i = a + 5"
proof
  have run: "bs ! k" if "a \<le> k" "k < a + n" for k
  proof -
    from that have "k - a < n" by arith
    with on have "bs ! (a + (k - a))" by blast
    with that(1) show ?thesis by simp
  qed
  {
    assume six: "sixthOfRun bs i"
    then have i5: "5 \<le> i" and all: "\<And>j. j < 6 \<Longrightarrow> bs ! (i - j)"
      and left: "i = 5 \<or> \<not> bs ! (i - 6)"
      by (simp_all add: sixthOfRun_iff)
    show "i = a + 5"
    proof (rule ccontr)
      assume ne: "i \<noteq> a + 5"
      show False
      proof (cases "i < a + 5")
        case True
        with i5 have a: "0 < a" by arith
        from True i(1) have "i - a + 1 < 6" by arith
        then have "bs ! (i - (i - a + 1))" by (rule all)
        moreover from i(1) a have "i - (i - a + 1) = a - 1" by arith
        ultimately have "bs ! (a - 1)" by simp
        with start a show False by simp
      next
        case False
        with ne have big: "a + 5 < i" by arith
        then have "a \<le> i - 6" "i - 6 < a + n" using i(2) by arith+
        then have "bs ! (i - 6)" by (rule run)
        with left big show False by simp
      qed
    qed
  }
  {
    assume eq: "i = a + 5"
    have "bs ! (i - j)" if "j < 6" for j
    proof (rule run)
      show "a \<le> i - j" using that eq by arith
      show "i - j < a + n" using i(2) by arith
    qed
    moreover have "i = 5 \<or> \<not> bs ! (i - 6)"
      using start eq by (cases "a = 0") simp_all
    ultimately show "sixthOfRun bs i"
      using eq by (simp add: sixthOfRun_iff)
  }
qed

text \<open>
  C3.  The filter on its own (both features disabled, as after construction),
  started with an all-zero history and polled with \<^verbatim>\<open>isPressed\<close> after every
  tick.  The poll after sample \<open>i\<close> returns true exactly when sample \<open>i\<close> is the
  sixth sample of a maximal run of ON samples.  Spelled out: the poll after an
  OFF sample returns false; and in a run of \<open>n\<close> ON samples starting at sample
  \<open>a\<close> (the first sample of all, or the one after an OFF sample), the poll
  after sample \<open>i\<close> of the run returns true exactly for \<open>i = a + 5\<close>.  So a run
  of at least 6 ON samples gets one true result, at its sixth sample and not
  within its first 5, and a shorter run gets none.
\<close>

theorem isPressed_once_per_run:
  assumes "\<not> flagEnableDoublePress s" and "\<not> flagEnableLongPress s"
    and "historyButton s = PATTERN_UP" and "\<not> flagPressProcessed s"
  shows "length (fst (pollPressed xs s)) = length xs
         \<and> (\<forall>i<length xs. fst (pollPressed xs s) ! i = sixthOfRun (map (sampleOn s) xs) i)
         \<and> (\<forall>i<length xs. \<not> sampleOn s (xs ! i) \<longrightarrow> \<not> fst (pollPressed xs s) ! i)
         \<and> (\<forall>a n. (a = 0 \<or> \<not> sampleOn s (xs ! (a - 1)))
                    \<and> (\<forall>j<n. sampleOn s (xs ! (a + j))) \<and> a + n \<le> length xs
                \<longrightarrow> (\<forall>i. a \<le> i \<and> i < a + n
                         \<longrightarrow> (fst (pollPressed xs s) ! i \<longleftrightarrow> i = a + 5)))"
proof (intro conjI allI impI)
  let ?bs = "map (sampleOn s) xs"
  from pollPressed_filter [OF assms, of xs]
  have pos: "\<forall>i<length xs. fst (pollPressed xs s) ! i = sixthOfRun ?bs i"
    by (elim conjE)
  from pollPressed_filter [OF assms, of xs]
  show "length (fst (pollPressed xs s)) = length xs"
    by (elim conjE)
  show "fst (pollPressed xs s) ! i = sixthOfRun ?bs i" if "i < length xs" for i
    using pos that by simp
  show "\<not> fst (pollPressed xs s) ! i" if "i < length xs" "\<not> sampleOn s (xs ! i)" for i
  proof -
    from that have "\<not> ?bs ! i" by simp
    then have "\<not> sixthOfRun ?bs i" by (rule sixthOfRun_off)
    with pos that(1) show ?thesis by simp
  qed
  show "fst (pollPressed xs s) ! i \<longleftrightarrow> i = a + 5"
    if run: "(a = 0 \<or> \<not> sampleOn s (xs ! (a - 1)))
               \<and> (\<forall>j<n. sampleOn s (xs ! (a + j))) \<and> a + n \<le> length xs"
      and i: "a \<le> i \<and> i < a + n" for a n i
  proof -
    from run have fit: "a + n \<le> length xs" by (elim conjE)
    from i fit have ilen: "i < length xs" by arith
    have "a = 0 \<or> \<not> ?bs ! (a - 1)"
    proof (cases "a = 0")
      case True
      then show ?thesis by simp
    next
      case False
      with i ilen have "a - 1 < length xs" by arith
      then have "?bs ! (a - 1) = sampleOn s (xs ! (a - 1))" by simp
      with run False show ?thesis by simp
    qed
    moreover have "\<forall>j<n. ?bs ! (a + j)"
    proof (intro allI impI)
      fix j assume j: "j < n"
      with fit have "a + j < length xs" by arith
      then have "?bs ! (a + j) = sampleOn s (xs ! (a + j))" by simp
      with run j show "?bs ! (a + j)" by simp
    qed
    moreover from i have "a \<le> i" "i < a + n" by simp_all
    ultimately have "sixthOfRun ?bs i \<longleftrightarrow> i = a + 5"
      by (rule sixthOfRun_in_run)
    with pos ilen show ?thesis by simp
  qed
qed

theorem isPressed_once_per_run_witness:
  "\<not> flagEnableDoublePress (Debounce16_ctor 17 False)
   \<and> \<not> flagEnableLongPress (Debounce16_ctor 17 False)
   \<and> historyButton (Debounce16_ctor 17 False) = PATTERN_UP
   \<and> \<not> flagPressProcessed (Debounce16_ctor 17 False)
   \<and> fst (pollPressed
        (map (\<lambda>b. (b, 0)) (replicate 7 False @ True # replicate 3 False @ True # replicate 6 False))
        (Debounce16_ctor 17 False))
      = replicate 5 False @ True # replicate 11 False @ [True]
   \<and> sixthOfRun (map (sampleOn (Debounce16_ctor 17 False))
        (map (\<lambda>b. (b, 0)) (replicate 7 False @ True # replicate 3 False @ True # replicate 6 False))) 5
   \<and> sixthOfRun (map (sampleOn (Debounce16_ctor 17 False))
        (map (\<lambda>b. (b, 0)) (replicate 7 False @ True # replicate 3 False @ True # replicate 6 False))) 17
   \<and> \<not> sixthOfRun (map (sampleOn (Debounce16_ctor 17 False))
        (map (\<lambda>b. (b, 0)) (replicate 7 False @ True # replicate 3 False @ True # replicate 6 False))) 6
   \<and> \<not> sixthOfRun (map (sampleOn (Debounce16_ctor 17 False))
        (map (\<lambda>b. (b, 0)) (replicate 7 False @ True # replicate 3 False @ True # replicate 6 False))) 10"
proof -
  let ?s = "Debounce16_ctor 17 False"
  let ?xs = "map (\<lambda>b. (b, 0 :: 32 word))
               (replicate 7 False @ True # replicate 3 False @ True # replicate 6 False)"
  have pre: "\<not> flagEnableDoublePress ?s" "\<not> flagEnableLongPress ?s"
    "historyButton ?s = PATTERN_UP" "\<not> flagPressProcessed ?s"
    by (simp_all add: Debounce16_ctor_def)
  have polls: "fst (pollPressed ?xs ?s) = replicate 5 False @ True # replicate 11 False @ [True]"
    by code_simp
  have len: "length ?xs = 18"
    by simp
  have "fst (pollPressed ?xs ?s) ! i = sixthOfRun (map (sampleOn ?s) ?xs) i" if "i < 18" for i
    using isPressed_once_per_run [OF pre, of ?xs, THEN conjunct2, THEN conjunct1, rule_format, of i]
      that len by (simp only:)
  from this [of 5] this [of 17] this [of 6] this [of 10]
  have "sixthOfRun (map (sampleOn ?s) ?xs) 5" "sixthOfRun (map (sampleOn ?s) ?xs) 17"
    "\<not> sixthOfRun (map (sampleOn ?s) ?xs) 6" "\<not> sixthOfRun (map (sampleOn ?s) ?xs) 10"
    unfolding polls by (simp_all add: nth_append nth_Cons')
  with pre polls show ?thesis
    by blast
qed

section \<open>Runs of ticks at a cadence of 1 ms\<close>

lemma same_flagPressProcessed:
  "flagPressProcessed s = b \<Longrightarrow> s\<lparr>flagPressProcessed := b\<rparr> = s"
  by (cases s) simp

lemma same_historyButton:
  "historyButton s = h \<Longrightarrow> s\<lparr>historyButton := h\<rparr> = s"
  by (cases s) simp

text \<open>
  Ticks that change nothing: the history is steady, the press guard agrees with
  it, and the machine is idle or still waiting inside the double-press window.
\<close>

lemma steady_tick:
  assumes lev: "levelActive s"
    and hist: "historyButton s = (if lvl then PATTERN_DOWN else PATTERN_UP)"
    and guard: "flagPressProcessed s = lvl"
    and phase: "stateButton s = STATE_IDLE
                \<or> stateButton s = STATE_RELEASE_FIRST
                  \<and> t - timeEvent s < ucast (windowDoublePress s)"
  shows "update lvl t s = s"
proof -
  have smp: "sampled lvl s = s"
    unfolding sampled_def
    by (rule same_historyButton)
       (use lev hist in \<open>simp add: readButtonRaw_def PATTERN_DOWN_def PATTERN_UP_def\<close>)
  have pat: "(historyButton s AND MASK_PRESS = PATTERN_PRESS) = lvl"
    using hist by (simp add: MASK_PRESS_def PATTERN_PRESS_def PATTERN_DOWN_def PATTERN_UP_def)
  have prs: "isPressed s = (False, s)"
    using pat guard by (cases lvl) (simp_all add: isPressed_def same_flagPressProcessed)
  have "updateStateMachine t s = s"
    using phase
  proof
    assume "stateButton s = STATE_IDLE"
    then show ?thesis
      by (simp add: usm_idle prs)
  next
    assume "stateButton s = STATE_RELEASE_FIRST
             \<and> t - timeEvent s < ucast (windowDoublePress s)"
    then have "stateButton s = STATE_RELEASE_FIRST"
      and "\<not> ucast (windowDoublePress s) \<le> t - timeEvent s"
      by (simp_all add: not_le)
    then show ?thesis
      by (simp add: usm_release_first prs Let_def)
  qed
  then show ?thesis
    by (simp add: update_sampled smp)
qed

lemma steady_ticks:
  assumes lev: "levelActive s"
    and hist: "historyButton s = (if lvl then PATTERN_DOWN else PATTERN_UP)"
    and guard: "flagPressProcessed s = lvl"
    and phase: "stateButton s = STATE_IDLE
                \<or> stateButton s = STATE_RELEASE_FIRST
                  \<and> (\<forall>i\<in>set is. (of_nat i :: 32 word) - timeEvent s < ucast (windowDoublePress s))"
  shows "ticks (map (\<lambda>i. (lvl, of_nat i)) is) s = s"
  using phase
proof (induction "is")
  case Nil
  show ?case by simp
next
  case (Cons i "is")
  have "update lvl (of_nat i) s = s"
    using Cons.prems by (intro steady_tick lev hist guard) auto
  moreover have "ticks (map (\<lambda>i. (lvl, of_nat i)) is) s = s"
    using Cons.prems by (intro Cons.IH) auto
  ultimately show ?case
    by simp
qed

lemma steady_msTicks:
  assumes "levelActive s"
    and "historyButton s = (if lvl then PATTERN_DOWN else PATTERN_UP)"
    and "flagPressProcessed s = lvl"
    and "stateButton s = STATE_IDLE
         \<or> stateButton s = STATE_RELEASE_FIRST
           \<and> (\<forall>i\<in>set [a..<b]. (of_nat i :: 32 word) - timeEvent s < ucast (windowDoublePress s))"
  shows "ticks (msTicks lvl a b) s = s"
  unfolding msTicks_def using assms by (rule steady_ticks)

lemma msTicks_split:
  "a \<le> b \<Longrightarrow> b \<le> c \<Longrightarrow> msTicks lvl a c = msTicks lvl a b @ msTicks lvl b c"
proof -
  assume "a \<le> b" and "b \<le> c"
  then have "[a..<c] = [a..<b] @ [b..<c]"
    using upt_add_eq_append [of a b "c - b"] by simp
  then show ?thesis
    by (simp add: msTicks_def)
qed

lemma elapsed_less:
  assumes "e \<le> i" and "i < e + w" and "e + w < 2 ^ 32"
  shows "(of_nat i :: 32 word) - of_nat e < of_nat w"
proof -
  have lt: "(of_nat d :: 32 word) < of_nat w" if "d < w" for d
    using that assms(3) by (simp add: of_nat_word_less_iff take_bit_nat_eq_self)
  have "(of_nat (i - e) :: 32 word) < of_nat w"
    by (rule lt) (use assms in arith)
  moreover have "(of_nat (i - e) :: 32 word) = of_nat i - of_nat e"
    using assms(1) by simp
  ultimately show ?thesis
    by (simp only:)
qed

lemma idle_off_tick:
  assumes "levelActive s" and "stateButton s = STATE_IDLE"
  shows "stateButton (update False t s) = STATE_IDLE"
    and "invoked (update False t s) = invoked s"
    and "flagLongPressed (update False t s) = flagLongPressed s"
    and "levelActive (update False t s) = levelActive s"
proof -
  let ?u = "sampled False s"
  have "\<not> bit (historyButton ?u) 0"
    unfolding historyButton_sampled shifted_history_bits
    using assms(1) by (simp add: readButtonRaw_def)
  then have "\<not> (\<forall>k<6. bit (historyButton ?u) k)"
    by (auto intro: exI [of _ 0])
  then have "historyButton ?u AND MASK_PRESS \<noteq> PATTERN_PRESS"
    unfolding press_pattern_bits .
  then have prs: "isPressed ?u = (False, ?u\<lparr>flagPressProcessed := False\<rparr>)"
    by (simp add: isPressed_def)
  have "stateButton ?u = STATE_IDLE"
    using assms(2) by (simp add: sampled_fields)
  then have usm: "updateStateMachine t ?u = ?u\<lparr>flagPressProcessed := False\<rparr>"
    by (simp add: usm_idle prs)
  have u: "update False t s = (if flagEnableDoublePress s \<or> flagEnableLongPress s
                               then ?u\<lparr>flagPressProcessed := False\<rparr> else ?u)"
    by (simp only: update_sampled usm)
  have more: "flagLongPressed ?u = flagLongPressed s" "levelActive ?u = levelActive s"
    by (simp_all add: sampled_def)
  show "stateButton (update False t s) = STATE_IDLE"
    "invoked (update False t s) = invoked s"
    "flagLongPressed (update False t s) = flagLongPressed s"
    "levelActive (update False t s) = levelActive s"
    using assms(2) by (simp_all add: u sampled_fields more)
qed

lemma idle_off_ticks:
  assumes "levelActive s" and "stateButton s = STATE_IDLE"
  shows "stateButton (ticks (map (\<lambda>i. (False, f i)) is) s) = STATE_IDLE
         \<and> invoked (ticks (map (\<lambda>i. (False, f i)) is) s) = invoked s
         \<and> flagLongPressed (ticks (map (\<lambda>i. (False, f i)) is) s) = flagLongPressed s"
  using assms
proof (induction "is" arbitrary: s)
  case Nil
  then show ?case by simp
next
  case (Cons i "is")
  from Cons.IH [of "update False (f i) s"] idle_off_tick [OF Cons.prems, of "f i"] Cons.prems
  show ?case by simp
qed

lemma msTicks_one: "msTicks lvl a (Suc a) = [(lvl, of_nat a)]"
  by (simp add: msTicks_def)

lemma waiting_msTicks:
  assumes "levelActive s" and "historyButton s = PATTERN_UP" and "\<not> flagPressProcessed s"
    and "stateButton s = STATE_RELEASE_FIRST"
    and "timeEvent s = of_nat e" and "ucast (windowDoublePress s) = (of_nat w :: 32 word)"
    and "e + w < 2 ^ 32" and "e \<le> a" and "b \<le> e + w"
  shows "ticks (msTicks False a b) s = s"
proof (rule steady_msTicks)
  show "levelActive s"
    by fact
  show "historyButton s = (if False then PATTERN_DOWN else PATTERN_UP)"
    using assms(2) by simp
  show "flagPressProcessed s = False"
    using assms(3) by simp
  have "(of_nat i :: 32 word) - timeEvent s < ucast (windowDoublePress s)"
    if "i \<in> set [a..<b]" for i
    unfolding assms(5,6)
    by (rule elapsed_less) (use that assms(7,8,9) in auto)
  with assms(4)
  show "stateButton s = STATE_IDLE
        \<or> stateButton s = STATE_RELEASE_FIRST
          \<and> (\<forall>i\<in>set [a..<b]. (of_nat i :: 32 word) - timeEvent s < ucast (windowDoublePress s))"
    by blast
qed

lemma idle_msTicks:
  assumes "levelActive s" and "historyButton s = PATTERN_UP" and "\<not> flagPressProcessed s"
    and "stateButton s = STATE_IDLE"
  shows "ticks (msTicks False a b) s = s"
  by (rule steady_msTicks) (use assms in simp_all)

section \<open>Long press\<close>

text \<open>
  A button held down from the first tick on, sampled every millisecond, with
  long-press detection enabled: the press edge comes at tick 6; at tick 16 the
  history is \<open>0xFFFF\<close>, the release test of \<^verbatim>\<open>isReleased\<close> succeeds (see C1) and
  the machine goes back to \<open>STATE_IDLE\<close>, where it stays however long the
  button is held, since the press guard is still set.
\<close>

lemma held_button_never_long_press:
  "ticks (msTicks True 1 (17 + n)) longPressButton = ticks (msTicks True 1 17) longPressButton"
  "stateButton (ticks (msTicks True 1 17) longPressButton) = STATE_IDLE"
  "invoked (ticks (msTicks True 1 17) longPressButton) = [1, 2]"
  "\<not> flagLongPressed (ticks (msTicks True 1 17) longPressButton)"
  "levelActive (ticks (msTicks True 1 17) longPressButton)"
proof -
  let ?h = "ticks (msTicks True 1 17) longPressButton"
  show idle: "stateButton ?h = STATE_IDLE" and "invoked ?h = [1, 2]"
    and "\<not> flagLongPressed ?h" and lev: "levelActive ?h"
    by code_simp+
  have hist: "historyButton ?h = (if True then PATTERN_DOWN else PATTERN_UP)"
    and guard: "flagPressProcessed ?h = True"
    by code_simp+
  have split: "msTicks True 1 (17 + n) = msTicks True 1 17 @ msTicks True 17 (17 + n)"
    by (rule msTicks_split) simp_all
  have "ticks (msTicks True 1 (17 + n)) longPressButton = ticks (msTicks True 17 (17 + n)) ?h"
    by (simp only: split ticks_append)
  also have "\<dots> = ?h"
    by (rule steady_msTicks [OF lev hist guard]) (rule disjI1, rule idle)
  finally show "ticks (msTicks True 1 (17 + n)) longPressButton = ?h" .
qed

text \<open>
  C5.  Long-press detection enabled at a threshold of 1000 ms, all five handlers
  registered, the button held for 1100 ms (ticks at 1, 2, \<dots>, 1100 ms) and then
  released for 100 ms.  The handlers called are the press handler and the
  release handler, once each: the long-press-start handler 3 and the
  long-press-end handler 4 are never called, and \<^verbatim>\<open>isLongPressed\<close> is false at
  the end of the hold and after the release.
\<close>

theorem long_press_never_starts:
  "invoked (ticks (msTicks True 1 1101) longPressButton) = [1, 2]
   \<and> \<not> isLongPressed (ticks (msTicks True 1 1101) longPressButton)
   \<and> stateButton (ticks (msTicks True 1 1101) longPressButton) = STATE_IDLE
   \<and> invoked (ticks (msTicks True 1 1101 @ msTicks False 1101 1201) longPressButton) = [1, 2]
   \<and> \<not> isLongPressed (ticks (msTicks True 1 1101 @ msTicks False 1101 1201) longPressButton)"
proof -
  let ?h = "ticks (msTicks True 1 1101) longPressButton"
  have h: "?h = ticks (msTicks True 1 17) longPressButton"
    using held_button_never_long_press(1) [of 1084] by simp
  have hold: "invoked ?h = [1, 2]" "\<not> flagLongPressed ?h" "stateButton ?h = STATE_IDLE"
    "levelActive ?h"
    unfolding h by (rule held_button_never_long_press)+
  from idle_off_ticks [OF hold(4) hold(3), of of_nat "[1101..<1201]"] hold
  show ?thesis
    by (simp add: ticks_append msTicks_def isLongPressed_def)
qed

section \<open>Double press\<close>

text \<open>
  C4.  Double-press detection enabled at a window of 300 ms, ticks every
  millisecond.  The button is down for 20 ms (ticks 1 to 20), up for 354 ms, down
  again for 20 ms (ticks 375 to 394; the second press edge comes at tick 380, more
  than 350 ms after the button went up) and up until tick 750.  No double press
  is reported and the double-press handler 5 is not called.  The click counter
  is 1 while the machine waits in \<open>STATE_RELEASE_FIRST\<close> (tick 315); at tick 316
  the window has expired, the machine is back in \<open>STATE_IDLE\<close> and
  \<^verbatim>\<open>getClickCount\<close> returns 0, as it does at the end of the run.
\<close>

theorem late_second_press_count_zero_in_idle:
  "stateButton (ticks (msTicks True 1 21 @ msTicks False 21 316) doublePressButton)
     = STATE_RELEASE_FIRST
   \<and> fst (getClickCount (ticks (msTicks True 1 21 @ msTicks False 21 316) doublePressButton)) = 1
   \<and> stateButton (ticks (msTicks True 1 21 @ msTicks False 21 317) doublePressButton)
     = STATE_IDLE
   \<and> fst (getClickCount (ticks (msTicks True 1 21 @ msTicks False 21 317) doublePressButton)) = 0
   \<and> stateButton
       (ticks (msTicks True 1 21 @ msTicks False 21 375 @ msTicks True 375 395
               @ msTicks False 395 751) doublePressButton) = STATE_IDLE
   \<and> fst (getClickCount
       (ticks (msTicks True 1 21 @ msTicks False 21 375 @ msTicks True 375 395
               @ msTicks False 395 751) doublePressButton)) = 0
   \<and> \<not> fst (isDoublePressed
       (ticks (msTicks True 1 21 @ msTicks False 21 375 @ msTicks True 375 395
               @ msTicks False 395 751) doublePressButton))
   \<and> invoked
       (ticks (msTicks True 1 21 @ msTicks False 21 375 @ msTicks True 375 395
               @ msTicks False 395 751) doublePressButton) = [1, 2, 1, 2]"
proof -
  let ?w1 = "doublePressButton\<lparr>stateButton := STATE_RELEASE_FIRST, timeEvent := 16,
               timePress := 6, countClick := 1, flagReleaseProcessed := True,
               invoked := [1, 2]\<rparr>"
  let ?i1 = "?w1\<lparr>stateButton := STATE_IDLE, countClick := 0\<rparr>"
  let ?w2 = "?i1\<lparr>stateButton := STATE_RELEASE_FIRST, timeEvent := 390, timePress := 380,
               countClick := 1, invoked := [1, 2, 1, 2]\<rparr>"
  let ?i2 = "?w2\<lparr>stateButton := STATE_IDLE, countClick := 0\<rparr>"
  have e1: "ticks (msTicks True 1 21 @ msTicks False 21 37) doublePressButton = ?w1"
    by code_simp
  have e2: "update False 316 ?w1 = ?i1"
    by code_simp
  have e3: "ticks (msTicks True 375 395 @ msTicks False 395 411) ?i1 = ?w2"
    by code_simp
  have e4: "update False 690 ?w2 = ?i2"
    by code_simp
  have q1: "ticks (msTicks False 37 316) ?w1 = ?w1"
    by (rule waiting_msTicks [where e = 16 and w = 300])
       (simp_all add: doublePressButton_def withHandlers_def ops)
  have q2: "ticks (msTicks False 317 375) ?i1 = ?i1"
    by (rule idle_msTicks) (simp_all add: doublePressButton_def withHandlers_def ops)
  have q3: "ticks (msTicks False 411 690) ?w2 = ?w2"
    by (rule waiting_msTicks [where e = 390 and w = 300])
       (simp_all add: doublePressButton_def withHandlers_def ops)
  have q4: "ticks (msTicks False 691 751) ?i2 = ?i2"
    by (rule idle_msTicks) (simp_all add: doublePressButton_def withHandlers_def ops)
  have s1: "msTicks False 21 316 = msTicks False 21 37 @ msTicks False 37 316"
    by (rule msTicks_split) simp_all
  have s2: "msTicks False 21 317 = msTicks False 21 37 @ msTicks False 37 316 @ [(False, 316)]"
    using msTicks_split [of 21 37 317 False] msTicks_split [of 37 316 317 False]
      msTicks_one [of False 316] by simp
  have s3: "msTicks False 21 375 = msTicks False 21 317 @ msTicks False 317 375"
    by (rule msTicks_split) simp_all
  have s4: "msTicks False 395 751
              = msTicks False 395 411 @ msTicks False 411 690 @ [(False, 690)]
                @ msTicks False 691 751"
    using msTicks_split [of 395 411 751 False] msTicks_split [of 411 690 751 False]
      msTicks_split [of 690 691 751 False] msTicks_one [of False 690] by simp
  have a: "ticks (msTicks True 1 21 @ msTicks False 21 316) doublePressButton = ?w1"
    using e1 q1 by (simp add: s1 ticks_append)
  have b: "ticks (msTicks True 1 21 @ msTicks False 21 317) doublePressButton = ?i1"
    using e1 q1 e2 by (simp add: s2 ticks_append)
  have c: "ticks (msTicks True 1 21 @ msTicks False 21 375 @ msTicks True 375 395
               @ msTicks False 395 751) doublePressButton = ?i2"
    using b q2 e3 q3 e4 q4 by (simp add: s3 s4 ticks_append)
  show ?thesis
    unfolding a b c
    by (simp add: getClickCount_def isDoublePressed_def doublePressButton_def
        withHandlers_def ops)
qed

section \<open>Disabling double-press detection\<close>

lemma inert_ticks:
  assumes "\<not> flagEnableDoublePress s" and "\<not> flagEnableLongPress s"
  shows "ticks xs s = s\<lparr>historyButton := historyButton (ticks xs s)\<rparr>"
  using assms
proof (induction xs arbitrary: s)
  case Nil
  show ?case by simp
next
  case (Cons x xs)
  obtain lvl t where x: "x = (lvl, t)" by (cases x)
  let ?u = "sampled lvl s"
  have u: "update lvl t s = ?u"
    using Cons.prems by (simp add: update_sampled)
  have "ticks xs ?u = ?u\<lparr>historyButton := historyButton (ticks xs ?u)\<rparr>"
    using Cons.prems by (intro Cons.IH) (simp_all add: sampled_fields)
  then have "ticks xs ?u = s\<lparr>historyButton := historyButton (ticks xs ?u)\<rparr>"
    by (simp add: sampled_def)
  then show ?case
    by (simp add: x u)
qed

lemma history_ticks_cong:
  assumes "historyButton a = historyButton b" and "levelActive a = levelActive b"
  shows "historyButton (ticks xs a) = historyButton (ticks xs b)"
  by (rule bit_eqI) (simp add: history_bits_ticks readButtonRaw_def assms)

text \<open>
  C2, as the code has it.  \<^verbatim>\<open>enableDoublePressDetection(false)\<close> clears the click
  counter and the double-press flag at once and changes nothing else but the
  enable flag; the phase stays what it was.  When long-press detection is not
  enabled, the ticks that follow change the history only, as they do on an
  object on which double-press detection was never enabled.
\<close>

theorem disable_double_press_keeps_phase:
  "enableDoublePressDetection False s
     = s\<lparr>flagEnableDoublePress := False, countClick := 0, flagDoublePressed := False\<rparr>
   \<and> countClick (enableDoublePressDetection False s) = 0
   \<and> \<not> flagDoublePressed (enableDoublePressDetection False s)
   \<and> stateButton (enableDoublePressDetection False s) = stateButton s
   \<and> (\<not> flagEnableLongPress s \<longrightarrow>
         ticks xs (enableDoublePressDetection False s)
           = (enableDoublePressDetection False s)\<lparr>historyButton := historyButton (ticks xs s)\<rparr>)"
proof -
  let ?d = "enableDoublePressDetection False s"
  have d: "?d = s\<lparr>flagEnableDoublePress := False, countClick := 0, flagDoublePressed := False\<rparr>"
    by (simp add: enableDoublePressDetection_def)
  have "ticks xs ?d = ?d\<lparr>historyButton := historyButton (ticks xs s)\<rparr>"
    if "\<not> flagEnableLongPress s"
  proof -
    have "ticks xs ?d = ?d\<lparr>historyButton := historyButton (ticks xs ?d)\<rparr>"
      using that by (intro inert_ticks) (simp_all add: d)
    moreover have "historyButton (ticks xs ?d) = historyButton (ticks xs s)"
      by (rule history_ticks_cong) (simp_all add: d)
    ultimately show ?thesis
      by (simp only:)
  qed
  then show ?thesis
    by (simp add: d)
qed

theorem disable_double_press_keeps_phase_witness:
  "\<not> flagEnableLongPress (ticks (msTicks True 0 16) doublePressButton)
   \<and> stateButton (ticks (msTicks True 0 16) doublePressButton) = STATE_RELEASE_FIRST
   \<and> countClick (ticks (msTicks True 0 16) doublePressButton) = 1
   \<and> countClick (enableDoublePressDetection False
        (ticks (msTicks True 0 16) doublePressButton)) = 0
   \<and> stateButton (ticks (msTicks False 16 22) (enableDoublePressDetection False
        (ticks (msTicks True 0 16) doublePressButton))) = STATE_RELEASE_FIRST
   \<and> countClick (ticks (msTicks False 16 22) (enableDoublePressDetection False
        (ticks (msTicks True 0 16) doublePressButton))) = 0"
proof -
  let ?s = "ticks (msTicks True 0 16) doublePressButton"
  let ?d = "enableDoublePressDetection False ?s"
  let ?xs = "msTicks False 16 22"
  have s: "\<not> flagEnableLongPress ?s" "stateButton ?s = STATE_RELEASE_FIRST"
    "countClick ?s = 1"
    by code_simp+
  from disable_double_press_keeps_phase [of ?s ?xs] s(1)
  have c: "countClick ?d = 0" and p: "stateButton ?d = stateButton ?s"
    and t: "ticks ?xs ?d = ?d\<lparr>historyButton := historyButton (ticks ?xs ?s)\<rparr>"
    by blast+
  have "stateButton (ticks ?xs ?d) = STATE_RELEASE_FIRST" "countClick (ticks ?xs ?d) = 0"
    unfolding t using c p s(2) by simp_all
  with s c show ?thesis
    by blast
qed

text \<open>
  C2, as stated, fails when long-press detection is enabled.  The button is
  down for 20 ms and up for 10 ms; the machine is in \<open>STATE_RELEASE_FIRST\<close>.
  Double-press detection is disabled there, and 16 ms later the button is
  pressed again.  \<^verbatim>\<open>getClickCount\<close> then returns 2; on an object that saw the
  same ticks and never had double-press detection enabled it returns 1.
\<close>

theorem disable_double_press_not_as_never_enabled:
  "stateButton (ticks (msTicks True 1 21 @ msTicks False 21 31)
       (enableDoublePressDetection True longPressButton)) = STATE_RELEASE_FIRST
   \<and> fst (getClickCount
       (ticks (msTicks False 31 41 @ msTicks True 41 47)
          (enableDoublePressDetection False
             (ticks (msTicks True 1 21 @ msTicks False 21 31)
                (enableDoublePressDetection True longPressButton))))) = 2
   \<and> fst (getClickCount
       (ticks (msTicks False 31 41 @ msTicks True 41 47)
          (ticks (msTicks True 1 21 @ msTicks False 21 31) longPressButton))) = 1
   \<and> fst (getClickCount
       (ticks (msTicks False 31 41 @ msTicks True 41 47)
          (enableDoublePressDetection False
             (ticks (msTicks True 1 21 @ msTicks False 21 31)
                (enableDoublePressDetection True longPressButton)))))
     \<noteq> fst (getClickCount
       (ticks (msTicks False 31 41 @ msTicks True 41 47)
          (ticks (msTicks True 1 21 @ msTicks False 21 31) longPressButton)))"
  by code_simp

section \<open>The double-press flag\<close>

text \<open>
  The double-press flag is set in one place only, in \<open>STATE_RELEASE_FIRST\<close> when
  the window has expired, and \<^verbatim>\<open>resetState\<close>, called directly after, clears it
  again.  So the flag is clear after every call on every object whose flag was
  clear before, and \<^verbatim>\<open>isDoublePressed\<close> returns false on every object a caller
  can obtain.
\<close>

lemma flagDoublePressed_updateStateMachine:
  assumes "\<not> flagDoublePressed s"
  shows "\<not> flagDoublePressed (updateStateMachine t s)"
proof (cases "stateButton s")
  case STATE_IDLE
  with assms show ?thesis
    by (simp add: usm_idle isPressed_gesture_fields)
next
  case STATE_PRESS_FIRST
  with assms show ?thesis
    by (simp add: usm_press_first Let_def resetState_def isReleased_gesture_fields
        triggerCallback_fields)
next
  case STATE_RELEASE_FIRST
  with assms show ?thesis
    by (simp add: usm_release_first Let_def resetState_def isPressed_gesture_fields)
next
  case STATE_LONG_PRESS_ACTIVE
  with assms show ?thesis
    by (simp add: usm_long_press_active resetState_def isReleased_gesture_fields)
next
  case STATE_WAIT_DOUBLE_PRESS
  with assms show ?thesis
    by (simp add: updateStateMachine_def)
next
  case STATE_WAIT_LONG_PRESS
  with assms show ?thesis
    by (simp add: updateStateMachine_def)
qed

lemma flagDoublePressed_perform:
  assumes "\<not> flagDoublePressed s"
  shows "\<not> flagDoublePressed (perform c s)"
proof (cases c)
  case (Update lvl t)
  from assms have "\<not> flagDoublePressed (sampled lvl s)"
    by (simp add: sampled_def)
  with Update show ?thesis
    by (simp add: update_sampled flagDoublePressed_updateStateMachine)
qed (use assms in \<open>simp_all add: isPressed_gesture_fields isReleased_gesture_fields
      enableDoublePressDetection_def enableLongPressDetection_def Let_def
      isDoublePressed_def getClickCount_def setDoublePressWindow_def
      setLongPressThreshold_def onPress_def onRelease_def onDoublePress_def
      onLongPressStart_def onLongPressEnd_def\<close>)

lemma isDoublePressed_never_true:
  "\<not> fst (isDoublePressed (performAll cs (Debounce16_ctor pin activeLevel)))"
proof -
  have "\<not> flagDoublePressed (performAll cs s)" if "\<not> flagDoublePressed s" for s
    using that
  proof (induction cs arbitrary: s)
    case Nil
    then show ?case by simp
  next
    case (Cons c cs)
    then show ?case by (simp add: flagDoublePressed_perform)
  qed
  then show ?thesis
    by (simp add: isDoublePressed_def Debounce16_ctor_def)
qed

end
